theory Spec2Isabelle
  imports Main "HOL-Library.Word" "HOL-Library.Sublist"
begin

section \<open>JavaScript strings\<close>

text \<open>
  A JavaScript string is a sequence of UTF-16 code units. ASCII literals of the source
  are written \<open>str ''...''\<close>.
\<close>

type_synonym code_unit = "16 word"
type_synonym jsstring = "code_unit list"

definition str :: "string \<Rightarrow> jsstring" where
  "str s = map of_char s"

definition LF :: code_unit where
  "LF = 0x0A"

definition HASH :: code_unit where
  "HASH = 0x23"

definition SPACE :: code_unit where
  "SPACE = 0x20"

text \<open>
  \<^verbatim>\<open>String.prototype.trim\<close> strips the code units of the productions WhiteSpace and
  LineTerminator of ECMAScript from both ends.
\<close>

definition isWhiteSpace :: "code_unit \<Rightarrow> bool" where
  "isWhiteSpace c \<longleftrightarrow>
     c \<in> set [0x0009, 0x000B, 0x000C, 0x0020, 0x00A0, 0x1680, 0x202F, 0x205F, 0x3000, 0xFEFF]
     \<or> (0x2000 \<le> c \<and> c \<le> 0x200A)"

definition isLineTerminator :: "code_unit \<Rightarrow> bool" where
  "isLineTerminator c \<longleftrightarrow> c \<in> set [0x000A, 0x000D, 0x2028, 0x2029]"

definition isTrimmed :: "code_unit \<Rightarrow> bool" where
  "isTrimmed c \<longleftrightarrow> isWhiteSpace c \<or> isLineTerminator c"

definition js_trim :: "jsstring \<Rightarrow> jsstring" where
  "js_trim s = rev (dropWhile isTrimmed (rev (dropWhile isTrimmed s)))"

text \<open>
  \<^verbatim>\<open>s.split(sep)\<close> for a separator of one code unit: the result always has at least
  one element, and \<^verbatim>\<open>"".split("\n")\<close> is \<^verbatim>\<open>[""]\<close>.
\<close>

fun js_split :: "code_unit \<Rightarrow> jsstring \<Rightarrow> jsstring list" where
  "js_split sep [] = [[]]"
| "js_split sep (c # cs) =
     (if c = sep then [] # js_split sep cs
      else (case js_split sep cs of
              [] \<Rightarrow> [[c]]
            | p # ps \<Rightarrow> (c # p) # ps))"

text \<open>\<^verbatim>\<open>xs.join(sep)\<close> for an array of strings.\<close>

fun js_join :: "jsstring \<Rightarrow> jsstring list \<Rightarrow> jsstring" where
  "js_join sep [] = []"
| "js_join sep [x] = x"
| "js_join sep (x # y # ys) = x @ sep @ js_join sep (y # ys)"

section \<open>Slide segmentation (SlidePreview.tsx)\<close>

text \<open>
  \<^verbatim>\<open>/^#{1,2} /.test(line)\<close>: anchored at the start of the line, the greedy quantifier
  tries two hashes and then one, each followed by a space.
\<close>

definition is_heading :: "jsstring \<Rightarrow> bool" where
  "is_heading line \<longleftrightarrow>
     list_ex (\<lambda>n. take n line = replicate n HASH \<and> take 1 (drop n line) = [SPACE]) [2, 1]"

definition placeholder_slide :: jsstring where
  "placeholder_slide = str ''# Welcome'' @ [LF, LF] @ str ''No content to display''"

text \<open>
  The \<^verbatim>\<open>for (const line of lines)\<close> loop over the pair of the mutable variables
  \<^verbatim>\<open>slides\<close> and \<^verbatim>\<open>current\<close>.
\<close>

fun slide_loop :: "jsstring list \<Rightarrow> jsstring list \<times> jsstring list \<Rightarrow> jsstring list \<times> jsstring list" where
  "slide_loop [] st = st"
| "slide_loop (line # rest) (slides, current) =
     (if is_heading line
      then slide_loop rest
             (if length current > 0 then slides @ [js_join [LF] current] else slides, [line])
      else slide_loop rest (slides, current @ [line]))"

definition flush :: "jsstring list \<times> jsstring list \<Rightarrow> jsstring list" where
  "flush st = (case st of (slides, current) \<Rightarrow>
     if length current > 0 then slides @ [js_join [LF] current] else slides)"

definition parseSlides :: "jsstring \<Rightarrow> jsstring list" where
  "parseSlides text =
     (if js_trim text = [] then [placeholder_slide]
      else let slides = flush (slide_loop (js_split LF text) ([], []))
           in if length slides > 0 then slides else [placeholder_slide])"

section \<open>Slide segmentation (LandingPage.tsx)\<close>

definition landing_placeholder :: jsstring where
  "landing_placeholder = str ''# Welcome''"

fun landing_loop :: "jsstring list \<Rightarrow> jsstring list \<times> jsstring list \<Rightarrow> jsstring list \<times> jsstring list" where
  "landing_loop [] st = st"
| "landing_loop (line # rest) (slides, current) =
     (if is_heading line
      then landing_loop rest
             (if length current > 0 then slides @ [js_join [LF] current] else slides, [line])
      else landing_loop rest (slides, current @ [line]))"

definition landing_parseSlides :: "jsstring \<Rightarrow> jsstring list" where
  "landing_parseSlides text =
     (let slides = flush (landing_loop (js_split LF text) ([], []))
      in if length slides > 0 then slides else [landing_placeholder])"

section \<open>Line groups\<close>

text \<open>
  The same loop before the lines of a slide are joined: the accumulator \<open>current\<close> is
  closed as a group of lines instead of as a string. It is used to state how the slides
  partition the lines of the text.
\<close>

fun line_groups :: "jsstring list \<Rightarrow> jsstring list list \<times> jsstring list \<Rightarrow> jsstring list list \<times> jsstring list" where
  "line_groups [] st = st"
| "line_groups (line # rest) (groups, current) =
     (if is_heading line
      then line_groups rest (if length current > 0 then groups @ [current] else groups, [line])
      else line_groups rest (groups, current @ [line]))"

definition close_group :: "jsstring list list \<times> jsstring list \<Rightarrow> jsstring list list" where
  "close_group st = (case st of (groups, current) \<Rightarrow>
     if length current > 0 then groups @ [current] else groups)"

definition slide_groups :: "jsstring \<Rightarrow> jsstring list list" where
  "slide_groups text = close_group (line_groups (js_split LF text) ([], []))"

section \<open>Serialising the ownership cookie\<close>

text \<open>
  The values \<^verbatim>\<open>JSON.parse\<close> returns. A number is kept as the text that \<^verbatim>\<open>JSON.stringify\<close>
  and \<^verbatim>\<open>String\<close> give for it (the handlers never compute with one), an object as the list
  of its own properties in their order.
\<close>

datatype json =
    JNull
  | JBool bool
  | JNum string
  | JStr jsstring
  | JArr "json list"
  | JObj "(jsstring \<times> json) list"

text \<open>
  The cookie \<^verbatim>\<open>md2slides_owned\<close> of a request, as the expression
  \<^verbatim>\<open>cookies.md2slides_owned ? JSON.parse(decodeURIComponent(cookies.md2slides_owned)) : []\<close>
  sees it: \<open>NoCookie\<close> when it is missing or empty, \<open>Malformed\<close> when
  \<^verbatim>\<open>decodeURIComponent\<close> or \<^verbatim>\<open>JSON.parse\<close> throws, else the value parsed. The server itself
  only ever writes arrays of strings, but the cookie is the client's to send.
\<close>

datatype cookie_state = NoCookie | Malformed | Owned json

definition is_lead :: "code_unit \<Rightarrow> bool" where
  "is_lead c \<longleftrightarrow> 0xD800 \<le> c \<and> c \<le> 0xDBFF"

definition is_trail :: "code_unit \<Rightarrow> bool" where
  "is_trail c \<longleftrightarrow> 0xDC00 \<le> c \<and> c \<le> 0xDFFF"

definition hex_digit :: "bool \<Rightarrow> nat \<Rightarrow> code_unit" where
  "hex_digit upper n =
     (if n < 10 then of_nat (48 + n) else of_nat ((if upper then 55 else 87) + n))"

text \<open>\<^verbatim>\<open>JSON.stringify\<close>: QuoteJSONString for strings and property names.\<close>

definition unicode_escape :: "code_unit \<Rightarrow> jsstring" where
  "unicode_escape c =
     (let n = unat c
      in [0x5C, 0x75] @
         map (hex_digit False) [n div 4096, (n div 256) mod 16, (n div 16) mod 16, n mod 16])"

definition quote_unit :: "code_unit \<Rightarrow> jsstring" where
  "quote_unit c =
     (if c = 0x08 then [0x5C, 0x62]
      else if c = 0x09 then [0x5C, 0x74]
      else if c = 0x0A then [0x5C, 0x6E]
      else if c = 0x0C then [0x5C, 0x66]
      else if c = 0x0D then [0x5C, 0x72]
      else if c = 0x22 then [0x5C, 0x22]
      else if c = 0x5C then [0x5C, 0x5C]
      else if c < 0x20 \<or> is_lead c \<or> is_trail c then unicode_escape c
      else [c])"

fun quote_units :: "jsstring \<Rightarrow> jsstring" where
  "quote_units [] = []"
| "quote_units [c] = quote_unit c"
| "quote_units (c # d # cs) =
     (if is_lead c \<and> is_trail d then c # d # quote_units cs
      else quote_unit c @ quote_units (d # cs))"

definition QuoteJSONString :: "jsstring \<Rightarrow> jsstring" where
  "QuoteJSONString s = [0x22] @ quote_units s @ [0x22]"

fun JSON_stringify :: "json \<Rightarrow> jsstring" where
  "JSON_stringify JNull = str ''null''"
| "JSON_stringify (JBool b) = (if b then str ''true'' else str ''false'')"
| "JSON_stringify (JNum n) = str n"
| "JSON_stringify (JStr s) = QuoteJSONString s"
| "JSON_stringify (JArr xs) = [0x5B] @ js_join [0x2C] (map JSON_stringify xs) @ [0x5D]"
| "JSON_stringify (JObj ps) =
     [0x7B] @ js_join [0x2C] (map (\<lambda>p. QuoteJSONString (fst p) @ [0x3A] @ JSON_stringify (snd p)) ps)
       @ [0x7D]"


text \<open>
  \<^verbatim>\<open>encodeURIComponent\<close>: the unreserved code units stay, every other code point is
  written as the percent-escaped octets of its UTF-8 encoding, and an unpaired surrogate
  throws URIError (\<open>None\<close>).
\<close>

definition uri_unreserved :: "code_unit \<Rightarrow> bool" where
  "uri_unreserved c \<longleftrightarrow>
     (0x41 \<le> c \<and> c \<le> 0x5A) \<or> (0x61 \<le> c \<and> c \<le> 0x7A) \<or> (0x30 \<le> c \<and> c \<le> 0x39)
     \<or> c \<in> set [0x2D, 0x5F, 0x2E, 0x21, 0x7E, 0x2A, 0x27, 0x28, 0x29]"

definition utf8 :: "nat \<Rightarrow> nat list" where
  "utf8 cp =
     (if cp < 0x80 then [cp]
      else if cp < 0x800 then [0xC0 + cp div 64, 0x80 + cp mod 64]
      else if cp < 0x10000 then [0xE0 + cp div 4096, 0x80 + (cp div 64) mod 64, 0x80 + cp mod 64]
      else [0xF0 + cp div 262144, 0x80 + (cp div 4096) mod 64,
            0x80 + (cp div 64) mod 64, 0x80 + cp mod 64])"

definition percent_octets :: "nat list \<Rightarrow> jsstring" where
  "percent_octets bs = concat (map (\<lambda>b. [0x25, hex_digit True (b div 16), hex_digit True (b mod 16)]) bs)"

definition pair_code_point :: "code_unit \<Rightarrow> code_unit \<Rightarrow> nat" where
  "pair_code_point c d = 0x10000 + (unat c - 0xD800) * 0x400 + (unat d - 0xDC00)"

fun encodeURIComponent :: "jsstring \<Rightarrow> jsstring option" where
  "encodeURIComponent [] = Some []"
| "encodeURIComponent (c # cs) =
     (if uri_unreserved c then map_option ((#) c) (encodeURIComponent cs)
      else if is_lead c then
        (case cs of
           [] \<Rightarrow> None
         | d # ds \<Rightarrow>
             if is_trail d
             then map_option ((@) (percent_octets (utf8 (pair_code_point c d)))) (encodeURIComponent ds)
             else None)
      else if is_trail c then None
      else map_option ((@) (percent_octets (utf8 (unat c)))) (encodeURIComponent cs))"

text \<open>Strings without an unpaired surrogate: those \<^verbatim>\<open>encodeURIComponent\<close> accepts.\<close>

definition plain :: "code_unit \<Rightarrow> bool" where
  "plain c \<longleftrightarrow> \<not> is_lead c \<and> \<not> is_trail c"

fun well_formed :: "jsstring \<Rightarrow> bool" where
  "well_formed [] = True"
| "well_formed [c] = (\<not> is_lead c \<and> \<not> is_trail c)"
| "well_formed (c # d # cs) =
     (if is_lead c \<and> is_trail d then well_formed cs
      else \<not> is_lead c \<and> \<not> is_trail c \<and> well_formed (d # cs))"

text \<open>The template literal of the \<^verbatim>\<open>Set-Cookie\<close> header, in \<^verbatim>\<open>save\<close> and in \<^verbatim>\<open>delete\<close>.\<close>

definition set_cookie_header :: "json \<Rightarrow> jsstring option" where
  "set_cookie_header owned =
     map_option (\<lambda>v. str ''md2slides_owned='' @ v @ str ''; Path=/; Max-Age=31536000; SameSite=Lax'')
       (encodeURIComponent (JSON_stringify owned))"

section \<open>The gist routes (index.ts)\<close>

subsection \<open>The GitHub API as the handlers see it\<close>

text \<open>
  What \<^verbatim>\<open>JSON.parse(gist.files["metadata.json"].content)\<close> followed by \<^verbatim>\<open>metadata.title\<close>
  gives: \<open>MetaUnparsable\<close> when either throws, else the member \<open>title\<close>, \<open>None\<close> when
  it is missing.
\<close>

datatype metadata_json = MetaUnparsable | MetaParsed "jsstring option"

record gist_files =
  presentation_md :: "jsstring option"
  metadata_json :: "metadata_json option"

record gist =
  gist_id :: jsstring
  gist_description :: jsstring
  gist_updated_at :: jsstring
  gist_html_url :: jsstring
  gist_files :: "gist_files option"

text \<open>
  The object sent to GitHub on create and update. The two time stamps of its metadata
  entry come from the clock and are left out.
\<close>

record gist_data =
  data_description :: jsstring
  data_presentation :: "jsstring option"
  data_title :: "jsstring option"

datatype remote_request =
    CreateGist gist_data
  | UpdateGist jsstring gist_data
  | GetGist jsstring
  | DeleteGist jsstring

text \<open>
  \<^verbatim>\<open>await fetch(...)\<close> either throws (\<open>NetworkError\<close>) or gives a response with a status
  (from 200 to 599, as \<^verbatim>\<open>fetch\<close> delivers them) and a body; \<^verbatim>\<open>response.json()\<close> throws
  on a body that is \<open>NotJson\<close>.
\<close>

datatype response_body = NotJson | Json gist

datatype fetch_result = NetworkError | Response nat response_body

type_synonym remote = "remote_request \<Rightarrow> fetch_result"

definition ok :: "nat \<Rightarrow> bool" where
  "ok st \<longleftrightarrow> 200 \<le> st \<and> st \<le> 299"

text \<open>A value in a condition (\<^verbatim>\<open>if (x)\<close>, \<^verbatim>\<open>x || y\<close>): a missing or empty string is falsy.\<close>

fun truthy :: "jsstring option \<Rightarrow> bool" where
  "truthy None = False"
| "truthy (Some s) = (s \<noteq> [])"

fun or_else :: "jsstring option \<Rightarrow> jsstring \<Rightarrow> jsstring" where
  "or_else None d = d"
| "or_else (Some s) d = (if s \<noteq> [] then s else d)"

subsection \<open>Responses of the server\<close>

record gist_entry =
  entry_id :: jsstring
  entry_title :: jsstring
  entry_description :: jsstring
  entry_updatedAt :: jsstring
  entry_url :: jsstring

datatype payload =
    ErrorJson jsstring
  | SavedJson jsstring jsstring bool
  | GistsJson "gist_entry list"
  | SuccessJson
  | LoadedJson jsstring jsstring

record http_response =
  status :: nat
  set_cookie :: "jsstring option"
  payload :: payload

definition error_response :: "nat \<Rightarrow> jsstring \<Rightarrow> http_response" where
  "error_response st msg = \<lparr>status = st, set_cookie = None, payload = ErrorJson msg\<rparr>"


subsection \<open>Reading and updating the owned list\<close>

text \<open>The owned list of a request; \<open>None\<close> when reading the cookie throws.\<close>

fun ownedGists :: "cookie_state \<Rightarrow> json option" where
  "ownedGists NoCookie = Some (JArr [])"
| "ownedGists Malformed = None"
| "ownedGists (Owned j) = Some j"

text \<open>
  \<^verbatim>\<open>ownedGists.includes(resultId)\<close> for a string \<^verbatim>\<open>resultId\<close>: on an array, whether one of
  its elements is that string; on a string, the substring test; every other value has no
  callable \<^verbatim>\<open>includes\<close>, and the call throws TypeError (\<open>None\<close>).
\<close>

fun owned_includes :: "json \<Rightarrow> jsstring \<Rightarrow> bool option" where
  "owned_includes (JArr xs) gid = Some (JStr gid \<in> set xs)"
| "owned_includes (JStr s) gid = Some (sublist gid s)"
| "owned_includes j gid = None"

text \<open>\<^verbatim>\<open>ownedGists.push(resultId)\<close>: only an array has \<^verbatim>\<open>push\<close>.\<close>

fun owned_push :: "json \<Rightarrow> jsstring \<Rightarrow> json option" where
  "owned_push (JArr xs) gid = Some (JArr (xs @ [JStr gid]))"
| "owned_push j gid = None"

text \<open>\<^verbatim>\<open>if (!ownedGists.includes(resultId)) ownedGists.push(resultId)\<close>.\<close>

definition owned_add :: "json \<Rightarrow> jsstring \<Rightarrow> json option" where
  "owned_add owned gid =
     (case owned_includes owned gid of
        None \<Rightarrow> None
      | Some inc \<Rightarrow> if \<not> inc then owned_push owned gid else Some owned)"

text \<open>
  \<^verbatim>\<open>ownedGists.filter((id) => id !== gistId)\<close>: only an array has \<^verbatim>\<open>filter\<close>, and only an
  element that is the string \<^verbatim>\<open>gistId\<close> is dropped.
\<close>

fun owned_remove :: "json \<Rightarrow> jsstring \<Rightarrow> json option" where
  "owned_remove (JArr xs) gid = Some (JArr (filter (\<lambda>i. i \<noteq> JStr gid) xs))"
| "owned_remove j gid = None"

subsection \<open>POST /api/gist/save\<close>

record save_body =
  body_title :: "jsstring option"
  body_content :: "jsstring option"
  body_gistId :: "jsstring option"

text \<open>The request: its JSON body (\<open>None\<close> when \<^verbatim>\<open>req.json()\<close> throws) and its cookie.\<close>

record save_request =
  save_json :: "save_body option"
  save_cookie :: cookie_state

definition gistData :: "save_body \<Rightarrow> gist_data" where
  "gistData b =
     \<lparr>data_description = or_else (body_title b) (str ''md2slides presentation''),
      data_presentation = body_content b,
      data_title = body_title b\<rparr>"

text \<open>
  The update with its fallback, or the create: the last response and \<^verbatim>\<open>finalGistId\<close>;
  \<open>None\<close> when a \<^verbatim>\<open>fetch\<close> throws.
\<close>

definition save_remote :: "remote \<Rightarrow> save_body \<Rightarrow> (nat \<times> response_body \<times> jsstring option) option" where
  "save_remote remote b =
     (if truthy (body_gistId b) then
        \<comment> \<open>the id is \<open>or_else (body_gistId b) []\<close>, as it is truthy here\<close>
        (case remote (UpdateGist (or_else (body_gistId b) []) (gistData b)) of
           NetworkError \<Rightarrow> None
         | Response st bd \<Rightarrow>
             if \<not> ok st then
               (case remote (CreateGist (gistData b)) of
                  NetworkError \<Rightarrow> None
                | Response st' bd' \<Rightarrow> Some (st', bd', None))
             else Some (st, bd, body_gistId b))
      else
        (case remote (CreateGist (gistData b)) of
           NetworkError \<Rightarrow> None
         | Response st bd \<Rightarrow> Some (st, bd, body_gistId b)))"

text \<open>The body of the \<^verbatim>\<open>try\<close> block; \<open>None\<close> when it throws.\<close>

definition save_try :: "remote \<Rightarrow> save_request \<Rightarrow> http_response option" where
  "save_try remote req =
     (case save_json req of
        None \<Rightarrow> None
      | Some b \<Rightarrow>
          (case save_remote remote b of
             None \<Rightarrow> None
           | Some (st, bd, finalGistId) \<Rightarrow>
               if \<not> ok st then Some (error_response st (str ''Failed to save gist''))
               else
                 (case bd of
                    NotJson \<Rightarrow> None
                  | Json result \<Rightarrow>
                      let resultId = or_else finalGistId (gist_id result)
                      in (case ownedGists (save_cookie req) of
                            None \<Rightarrow> None
                          | Some owned \<Rightarrow>
                              (case owned_add owned resultId of
                                 None \<Rightarrow> None
                               | Some owned' \<Rightarrow>
                                   (case set_cookie_header owned' of
                                      None \<Rightarrow> None
                                    | Some h \<Rightarrow>
                                        Some \<lparr>status = 200, set_cookie = Some h,
                                              payload = SavedJson (gist_html_url result) resultId
                                                          (truthy finalGistId)\<rparr>))))))"

definition save :: "bool \<Rightarrow> remote \<Rightarrow> save_request \<Rightarrow> http_response" where
  "save token remote req =
     (if \<not> token then error_response 500 (str ''GitHub token not configured'')
      else (case save_try remote req of
              None \<Rightarrow> error_response 500 (str ''Failed to save to gist'')
            | Some r \<Rightarrow> r))"

subsection \<open>GET /api/gist/list and GET /api/gist/load/:id\<close>









subsection \<open>DELETE /api/gist/delete/:id\<close>

definition delete_try :: "remote \<Rightarrow> cookie_state \<Rightarrow> jsstring \<Rightarrow> http_response option" where
  "delete_try remote cookie gistId =
     (case remote (DeleteGist gistId) of
        NetworkError \<Rightarrow> None
      | Response st bd \<Rightarrow>
          if \<not> ok st \<and> st \<noteq> 404 then Some (error_response st (str ''Failed to delete gist''))
          else
            (case ownedGists cookie of
               None \<Rightarrow> None
             | Some owned \<Rightarrow>
                 (case owned_remove owned gistId of
                    None \<Rightarrow> None
                  | Some updatedGists \<Rightarrow>
                      (case set_cookie_header updatedGists of
                         None \<Rightarrow> None
                       | Some h \<Rightarrow>
                           Some \<lparr>status = 200, set_cookie = Some h, payload = SuccessJson\<rparr>))))"

definition delete_gist :: "bool \<Rightarrow> remote \<Rightarrow> cookie_state \<Rightarrow> jsstring \<Rightarrow> http_response" where
  "delete_gist token remote cookie gistId =
     (if \<not> token then error_response 500 (str ''GitHub token not configured'')
      else (case delete_try remote cookie gistId of
              None \<Rightarrow> error_response 500 (str ''Failed to delete gist'')
            | Some r \<Rightarrow> r))"

section \<open>Sample requests and remotes\<close>

text \<open>
  A gist as GitHub returns it, a save request that names an older gist, the same request
  with the cookie \<^verbatim>\<open>[1]\<close>, an owned array with two ids and a number between them, a
  remote on which the update of that gist is not found while creating, reading and
  deleting the gist \<open>abc\<close> works, and a remote that answers every request with 503.
\<close>

definition sample_gist :: gist where
  "sample_gist =
     \<lparr>gist_id = str ''abc'', gist_description = str ''Talk'',
      gist_updated_at = str ''2024-01-01T00:00:00Z'',
      gist_html_url = str ''https://gist.github.com/abc'',
      gist_files =
        Some \<lparr>presentation_md = Some (str ''# A''),
              metadata_json = Some (MetaParsed (Some (str ''My talk'')))\<rparr>\<rparr>"

definition sample_body :: save_body where
  "sample_body =
     \<lparr>body_title = Some (str ''Talk''), body_content = Some (str ''# A''),
      body_gistId = Some (str ''old'')\<rparr>"

definition sample_request :: save_request where
  "sample_request = \<lparr>save_json = Some sample_body, save_cookie = NoCookie\<rparr>"

definition numbered_request :: save_request where
  "numbered_request = \<lparr>save_json = Some sample_body, save_cookie = Owned (JArr [JNum ''1''])\<rparr>"

definition sample_owned :: json where
  "sample_owned = JArr [JStr (str ''abc''), JNum ''1'', JStr (str ''xyz'')]"

definition remote_forks :: remote where
  "remote_forks r =
     (case r of
        UpdateGist i d \<Rightarrow> Response 404 NotJson
      | CreateGist d \<Rightarrow> Response 201 (Json sample_gist)
      | GetGist i \<Rightarrow> if i = str ''abc'' then Response 200 (Json sample_gist) else Response 404 NotJson
      | DeleteGist i \<Rightarrow> if i = str ''abc'' then Response 204 NotJson else Response 404 NotJson)"

definition remote_down :: remote where
  "remote_down r = Response 503 NotJson"

section \<open>Properties of the string operations\<close>

lemma js_split_nonempty: "js_split sep s \<noteq> []"
  by (induction s) (auto split: list.splits)

lemma js_join_split: "js_join [sep] (js_split sep s) = s"
proof (induction s)
  case Nil
  then show ?case by simp
next
  case (Cons c cs)
  show ?case
  proof (cases "js_split sep cs")
    case Nil
    then show ?thesis using js_split_nonempty by blast
  next
    case (Cons p ps)
    with Cons.IH show ?thesis
      by (cases ps) auto
  qed
qed

lemma js_split_no_sep: "l \<in> set (js_split sep s) \<Longrightarrow> sep \<notin> set l"
  by (induction s arbitrary: l) (auto split: if_splits list.splits)

lemma js_split_chars: "l \<in> set (js_split sep s) \<Longrightarrow> set l \<subseteq> set s"
proof (induction s arbitrary: l)
  case Nil
  then show ?case by simp
next
  case (Cons c cs)
  show ?case
  proof (cases "js_split sep cs")
    case Nil
    with Cons.prems show ?thesis by (auto split: if_splits)
  next
    case (Cons p ps)
    have "set p \<subseteq> set cs" "\<And>q. q \<in> set ps \<Longrightarrow> set q \<subseteq> set cs"
      using Cons.IH Cons by auto
    with Cons.prems Cons show ?thesis
      by (fastforce split: if_splits)
  qed
qed

lemma js_split_line: "sep \<notin> set l \<Longrightarrow> js_split sep l = [l]"
  by (induction l) auto

lemma js_split_append: "sep \<notin> set l \<Longrightarrow> js_split sep (l @ sep # s) = l # js_split sep s"
  by (induction l) auto

lemma js_split_join:
  "ls \<noteq> [] \<Longrightarrow> \<forall>l\<in>set ls. sep \<notin> set l \<Longrightarrow> js_split sep (js_join [sep] ls) = ls"
proof (induction ls rule: induct_list012)
  case 1
  then show ?case by simp
next
  case (2 x)
  then show ?case by (simp add: js_split_line)
next
  case (3 x y ys)
  then show ?case by (simp add: js_split_append)
qed

lemma js_join_append:
  "xs \<noteq> [] \<Longrightarrow> ys \<noteq> [] \<Longrightarrow> js_join sep (xs @ ys) = js_join sep xs @ sep @ js_join sep ys"
proof (induction xs rule: induct_list012)
  case 1
  then show ?case by simp
next
  case (2 x)
  then show ?case by (cases ys) auto
next
  case (3 x y zs)
  then show ?case by simp
qed

lemma js_join_concat:
  "[] \<notin> set gs \<Longrightarrow> js_join sep (map (js_join sep) gs) = js_join sep (concat gs)"
proof (induction gs)
  case Nil
  then show ?case by simp
next
  case (Cons g gs)
  show ?case
  proof (cases gs)
    case Nil
    then show ?thesis by simp
  next
    case (Cons g' gs')
    with Cons.prems have ne: "g \<noteq> []" "concat gs \<noteq> []" by auto
    from Cons.prems Cons.IH have IH: "js_join sep (map (js_join sep) gs) = js_join sep (concat gs)"
      by simp
    show ?thesis
      using Cons IH js_join_append[OF ne] by simp
  qed
qed

lemma js_trim_empty_iff: "js_trim s = [] \<longleftrightarrow> (\<forall>c\<in>set s. isTrimmed c)"
proof -
  have A: "(\<forall>x\<in>set (dropWhile isTrimmed s). isTrimmed x) \<longleftrightarrow> dropWhile isTrimmed s = []"
  proof
    assume all: "\<forall>x\<in>set (dropWhile isTrimmed s). isTrimmed x"
    show "dropWhile isTrimmed s = []"
    proof (rule ccontr)
      assume ne: "dropWhile isTrimmed s \<noteq> []"
      then have "\<not> isTrimmed (hd (dropWhile isTrimmed s))" by (rule hd_dropWhile)
      moreover from ne have "hd (dropWhile isTrimmed s) \<in> set (dropWhile isTrimmed s)" by simp
      ultimately show False using all by blast
    qed
  next
    assume "dropWhile isTrimmed s = []"
    then show "\<forall>x\<in>set (dropWhile isTrimmed s). isTrimmed x"
      by (auto dest: set_dropWhileD)
  qed
  show ?thesis
  proof
    assume "js_trim s = []"
    then have "dropWhile isTrimmed (rev (dropWhile isTrimmed s)) = []"
      by (simp add: js_trim_def)
    then have "\<forall>x\<in>set (dropWhile isTrimmed s). isTrimmed x"
      by (simp only: dropWhile_eq_Nil_conv set_rev)
    with A have "dropWhile isTrimmed s = []" by blast
    then show "\<forall>c\<in>set s. isTrimmed c"
      by (simp only: dropWhile_eq_Nil_conv)
  next
    assume "\<forall>c\<in>set s. isTrimmed c"
    then have e: "dropWhile isTrimmed s = []"
      by (simp only: dropWhile_eq_Nil_conv)
    show "js_trim s = []" unfolding js_trim_def e by simp
  qed
qed

lemma slide_loop_groups:
  "slide_loop ls (map (js_join [LF]) gs, cur) =
     (case line_groups ls (gs, cur) of (gs', cur') \<Rightarrow> (map (js_join [LF]) gs', cur'))"
proof (induction ls arbitrary: gs cur)
  case Nil
  then show ?case by simp
next
  case (Cons l ls)
  show ?case
    using Cons.IH[of "gs @ [cur]" "[l]"] Cons.IH[of gs "[l]"] Cons.IH[of gs "cur @ [l]"]
    by simp
qed

lemma flush_groups:
  "flush (map (js_join [LF]) gs, cur) = map (js_join [LF]) (close_group (gs, cur))"
  by (simp add: flush_def close_group_def)

lemma flush_slide_loop:
  "flush (slide_loop (js_split LF t) ([], [])) = map (js_join [LF]) (slide_groups t)"
  using slide_loop_groups[of "js_split LF t" "[]" "[]"]
  by (auto simp: slide_groups_def flush_groups[symmetric] split: prod.splits)

lemma landing_loop_eq: "landing_loop ls st = slide_loop ls st"
  by (induction ls st rule: slide_loop.induct) auto

lemma concat_line_groups:
  "concat (close_group (line_groups ls (gs, cur))) = concat gs @ cur @ ls"
  by (induction ls arbitrary: gs cur) (auto simp: close_group_def)

lemma line_groups_nonempty:
  "[] \<notin> set gs \<Longrightarrow> [] \<notin> set (close_group (line_groups ls (gs, cur)))"
proof (induction ls arbitrary: gs cur)
  case Nil
  then show ?case by (simp add: close_group_def)
next
  case (Cons l ls)
  have "[] \<notin> set (gs @ [cur])" if "cur \<noteq> []"
    using that Cons.prems by simp
  then show ?case
    using Cons.IH[of "gs @ [cur]" "[l]"] Cons.IH[OF Cons.prems, of "[l]"]
      Cons.IH[OF Cons.prems, of "cur @ [l]"]
    by simp
qed

lemma line_groups_heads:
  assumes "\<forall>g\<in>set (tl gs). is_heading (hd g)"
    and "gs \<noteq> [] \<longrightarrow> cur \<noteq> [] \<and> is_heading (hd cur)"
  shows "\<forall>g\<in>set (tl (close_group (line_groups ls (gs, cur)))). is_heading (hd g)"
  using assms
proof (induction ls arbitrary: gs cur)
  case Nil
  then show ?case by (cases gs) (auto simp: close_group_def)
next
  case (Cons l ls)
  show ?case
  proof (cases "is_heading l")
    case True
    let ?gs' = "if length cur > 0 then gs @ [cur] else gs"
    have "\<forall>g\<in>set (tl ?gs'). is_heading (hd g)"
      using Cons.prems by (cases gs) auto
    moreover have "?gs' \<noteq> [] \<longrightarrow> [l] \<noteq> [] \<and> is_heading (hd [l])"
      using True by simp
    ultimately have "\<forall>g\<in>set (tl (close_group (line_groups ls (?gs', [l])))). is_heading (hd g)"
      by (rule Cons.IH)
    with True show ?thesis by simp
  next
    case False
    have "gs \<noteq> [] \<longrightarrow> cur @ [l] \<noteq> [] \<and> is_heading (hd (cur @ [l]))"
      using Cons.prems(2) by auto
    with Cons.prems(1) have "\<forall>g\<in>set (tl (close_group (line_groups ls (gs, cur @ [l])))). is_heading (hd g)"
      by (rule Cons.IH)
    with False show ?thesis by simp
  qed
qed

lemma line_groups_tails:
  assumes "\<forall>g\<in>set gs. \<forall>l\<in>set (tl g). \<not> is_heading l"
    and "\<forall>l\<in>set (tl cur). \<not> is_heading l"
  shows "\<forall>g\<in>set (close_group (line_groups ls (gs, cur))). \<forall>l\<in>set (tl g). \<not> is_heading l"
  using assms
proof (induction ls arbitrary: gs cur)
  case Nil
  then show ?case by (auto simp: close_group_def)
next
  case (Cons l ls)
  show ?case
  proof (cases "is_heading l")
    case True
    let ?gs' = "if length cur > 0 then gs @ [cur] else gs"
    have "\<forall>g\<in>set ?gs'. \<forall>l\<in>set (tl g). \<not> is_heading l"
      using Cons.prems by auto
    moreover have "\<forall>x\<in>set (tl [l]). \<not> is_heading x" by simp
    ultimately have "\<forall>g\<in>set (close_group (line_groups ls (?gs', [l]))). \<forall>l\<in>set (tl g). \<not> is_heading l"
      by (rule Cons.IH)
    with True show ?thesis by simp
  next
    case False
    have "\<forall>x\<in>set (tl (cur @ [l])). \<not> is_heading x"
      using Cons.prems(2) False by (cases cur) auto
    with Cons.prems(1) have "\<forall>g\<in>set (close_group (line_groups ls (gs, cur @ [l]))). \<forall>l\<in>set (tl g). \<not> is_heading l"
      by (rule Cons.IH)
    with False show ?thesis by simp
  qed
qed

section \<open>Properties of the segmentation\<close>

lemma take1_eq: "take (Suc 0) xs = [a] \<longleftrightarrow> (\<exists>r. xs = a # r)"
  by (cases xs) auto

lemma is_heading_iff:
  "is_heading line \<longleftrightarrow> (\<exists>r. line = HASH # SPACE # r) \<or> (\<exists>r. line = HASH # HASH # SPACE # r)"
proof (cases line)
  case Nil
  then show ?thesis by (simp add: is_heading_def)
next
  case (Cons a rest)
  then show ?thesis
    by (auto simp: is_heading_def numeral_2_eq_2 take1_eq)
qed

lemma is_heading_prefix:
  "is_heading line \<longleftrightarrow> prefix (str ''# '') line \<or> prefix (str ''## '') line"
  by (auto simp: is_heading_iff prefix_def str_def HASH_def SPACE_def)

lemma is_heading_code [simp]:
  "is_heading [] = False"
  "is_heading [a] = False"
  "is_heading (a # b # r) = (a = HASH \<and> (b = SPACE \<or> (b = HASH \<and> take 1 r = [SPACE])))"
  by (auto simp: is_heading_iff) (cases r; auto)+

lemmas js_consts = str_def LF_def HASH_def SPACE_def
lemmas trim_defs = js_trim_def isTrimmed_def isWhiteSpace_def isLineTerminator_def

lemma concat_slide_groups: "concat (slide_groups t) = js_split LF t"
  by (simp add: slide_groups_def concat_line_groups)

lemma slide_groups_nonempty: "slide_groups t \<noteq> []"
  using concat_slide_groups[of t] js_split_nonempty[of LF t] by auto

lemma slide_groups_no_empty: "[] \<notin> set (slide_groups t)"
  unfolding slide_groups_def by (rule line_groups_nonempty) simp

lemma parseSlides_groups:
  "js_trim t \<noteq> [] \<Longrightarrow> parseSlides t = map (js_join [LF]) (slide_groups t)"
  by (simp add: parseSlides_def flush_slide_loop slide_groups_nonempty)

lemma landing_parseSlides_groups:
  "landing_parseSlides t = map (js_join [LF]) (slide_groups t)"
  by (simp add: landing_parseSlides_def landing_loop_eq flush_slide_loop slide_groups_nonempty)

lemma split_join_group:
  assumes "g \<in> set (slide_groups t)"
  shows "js_split LF (js_join [LF] g) = g"
proof (rule js_split_join)
  from assms slide_groups_no_empty show "g \<noteq> []" by metis
  have "set g \<subseteq> set (js_split LF t)"
    using assms concat_slide_groups[of t, symmetric] by auto
  then show "\<forall>l\<in>set g. LF \<notin> set l"
    using js_split_no_sep by blast
qed

lemma split_parseSlides:
  "js_trim t \<noteq> [] \<Longrightarrow> map (js_split LF) (parseSlides t) = slide_groups t"
  by (simp add: parseSlides_groups split_join_group map_idI)

lemma join_parseSlides:
  assumes "js_trim t \<noteq> []"
  shows "js_join [LF] (parseSlides t) = t"
proof -
  have "js_join [LF] (parseSlides t) = js_join [LF] (concat (slide_groups t))"
    using assms by (simp add: parseSlides_groups js_join_concat slide_groups_no_empty)
  then show ?thesis
    by (simp add: concat_slide_groups js_join_split)
qed

lemma parseSlides_nonempty: "parseSlides t \<noteq> []"
  by (simp add: parseSlides_def Let_def)

text \<open>
  Claim C1, as the code has it: the result of \<open>parseSlides\<close> is never empty, and for
  every text that is not empty or whitespace-only, joining the slides with a newline gives
  the text back, and the lines of the slides, in order, are the lines of the text.
\<close>

theorem parseSlides_content_preserving:
  "parseSlides t \<noteq> [] \<and>
   (js_trim t \<noteq> [] \<longrightarrow>
      js_join [LF] (parseSlides t) = t \<and>
      concat (map (js_split LF) (parseSlides t)) = js_split LF t)"
  by (simp add: parseSlides_nonempty join_parseSlides split_parseSlides concat_slide_groups)

theorem parseSlides_content_preserving_witness:
  "js_trim (str ''intro\<newline># A'') \<noteq> [] \<and>
   js_join [LF] (parseSlides (str ''intro\<newline># A'')) = str ''intro\<newline># A'' \<and>
   concat (map (js_split LF) (parseSlides (str ''intro\<newline># A''))) = [str ''intro'', str ''# A'']"
proof -
  have h: "js_trim (str ''intro\<newline># A'') \<noteq> []"
    by (simp add: trim_defs js_consts)
  have s: "js_split LF (str ''intro\<newline># A'') = [str ''intro'', str ''# A'']"
    by (simp add: js_consts)
  show ?thesis
    using h s parseSlides_content_preserving[of "str ''intro\<newline># A''"] by simp
qed

text \<open>
  For the empty text the slides are the placeholder, which does not join back to the text.
\<close>

theorem parseSlides_join_counterexample:
  "js_join [LF] (parseSlides []) \<noteq> []"
  by (simp add: parseSlides_def trim_defs placeholder_slide_def js_consts)

lemma HASH_not_trimmed: "\<not> isTrimmed HASH"
  by (simp add: trim_defs HASH_def)

lemma heading_has_hash: "is_heading l \<Longrightarrow> HASH \<in> set l"
  by (auto simp: is_heading_iff)

lemma blank_no_heading:
  assumes "js_trim t = []" and "l \<in> set (js_split LF t)"
  shows "\<not> is_heading l"
proof
  assume "is_heading l"
  then have "HASH \<in> set l" by (rule heading_has_hash)
  with assms(2) have "HASH \<in> set t" using js_split_chars by blast
  with assms(1) show False
    using HASH_not_trimmed by (auto simp: js_trim_empty_iff)
qed

lemma heading_line_not_blank:
  assumes "is_heading l" and "l \<in> set (js_split LF t)"
  shows "js_trim t \<noteq> []"
  using assms blank_no_heading by blast

text \<open>Where the groups of a concatenation start.\<close>

lemma find_group:
  assumes "concat gs = pre @ l # post" and "[] \<notin> set gs"
    and "\<forall>g\<in>set gs. \<forall>x\<in>set (tl g). \<not> P x" and "P l"
  shows "\<exists>k<length gs. concat (take k gs) = pre"
  using assms
proof (induction gs arbitrary: pre)
  case Nil
  then show ?case by simp
next
  case (Cons g gs)
  from Cons.prems(1) have "g @ concat gs = pre @ l # post" by simp
  then consider (inside) us where "g = pre @ us" "us @ concat gs = l # post"
    | (later) us where "g @ us = pre" "concat gs = us @ l # post"
    by (auto simp: append_eq_append_conv2)
  then show ?case
  proof cases
    case inside
    show ?thesis
    proof (cases us)
      case Nil
      with inside Cons.prems have "\<exists>k<length gs. concat (take k gs) = []"
        using Cons.IH[of "[]"] by auto
      then obtain k where "k < length gs" "concat (take k gs) = []" by blast
      with inside Nil have "Suc k < length (g # gs) \<and> concat (take (Suc k) (g # gs)) = pre"
        by simp
      then show ?thesis by blast
    next
      case (Cons u us')
      with inside have g: "g = pre @ l # us'" by simp
      have "pre = []"
      proof (rule ccontr)
        assume "pre \<noteq> []"
        then have "l \<in> set (tl g)" using g by (cases pre) auto
        with Cons.prems(3,4) show False by auto
      qed
      then have "0 < length (g # gs) \<and> concat (take 0 (g # gs)) = pre" by simp
      then show ?thesis by blast
    qed
  next
    case later
    with Cons.prems have "\<exists>k<length gs. concat (take k gs) = us"
      using Cons.IH[of us] by auto
    then obtain k where "k < length gs" "concat (take k gs) = us" by blast
    with later have "Suc k < length (g # gs) \<and> concat (take (Suc k) (g # gs)) = pre"
      by simp
    then show ?thesis by blast
  qed
qed

lemma group_start_is_head:
  assumes "concat gs = pre @ l # post" and "[] \<notin> set gs"
    and "\<forall>g\<in>set (tl gs). P (hd g)"
    and "0 < k" and "k < length gs" and "concat (take k gs) = pre"
  shows "P l"
proof -
  have "concat gs = concat (take k gs) @ concat (drop k gs)"
    by (metis append_take_drop_id concat_append)
  with assms(1,6) have d: "concat (drop k gs) = l # post" by simp
  from assms(5) have dk: "drop k gs = gs ! k # drop (Suc k) gs"
    by (simp add: Cons_nth_drop_Suc)
  from assms(2,5) have ne: "gs ! k \<noteq> []" by (metis nth_mem)
  with d dk have "hd (gs ! k) = l" by (cases "gs ! k") auto
  moreover have "gs ! k \<in> set (tl gs)"
  proof -
    from assms(4,5) have "tl gs ! (k - 1) = gs ! k" "k - 1 < length (tl gs)"
      by (cases gs; cases k; simp)+
    then show ?thesis by (metis nth_mem)
  qed
  ultimately show ?thesis using assms(3) by blast
qed

lemma slide_groups_heads: "\<forall>g\<in>set (tl (slide_groups t)). is_heading (hd g)"
  unfolding slide_groups_def by (rule line_groups_heads) simp_all

lemma slide_groups_tails: "\<forall>g\<in>set (slide_groups t). \<forall>l\<in>set (tl g). \<not> is_heading l"
  unfolding slide_groups_def by (rule line_groups_tails) simp_all

lemma boundary_iff_slide_start_nonblank:
  assumes nb: "js_trim t \<noteq> []" and sp: "js_split LF t = pre @ l # post" and pre: "pre \<noteq> []"
  shows "is_heading l \<longleftrightarrow>
    (\<exists>k. 0 < k \<and> k < length (parseSlides t) \<and>
         concat (map (js_split LF) (take k (parseSlides t))) = pre)"
proof -
  let ?gs = "slide_groups t"
  have len: "length (parseSlides t) = length ?gs"
    using nb by (simp add: parseSlides_groups)
  have tk: "map (js_split LF) (take k (parseSlides t)) = take k ?gs" for k
    using split_parseSlides[OF nb] by (simp add: take_map[symmetric])
  have c: "concat ?gs = pre @ l # post"
    using sp by (simp add: concat_slide_groups)
  show ?thesis
  proof
    assume "is_heading l"
    with c obtain k where k: "k < length ?gs" "concat (take k ?gs) = pre"
      using find_group[OF c slide_groups_no_empty slide_groups_tails] by blast
    with pre have "0 < k" by (cases k) auto
    with k show "\<exists>k. 0 < k \<and> k < length (parseSlides t) \<and>
         concat (map (js_split LF) (take k (parseSlides t))) = pre"
      using len tk by auto
  next
    assume "\<exists>k. 0 < k \<and> k < length (parseSlides t) \<and>
         concat (map (js_split LF) (take k (parseSlides t))) = pre"
    then obtain k where "0 < k" "k < length ?gs" "concat (take k ?gs) = pre"
      using len tk by auto
    then show "is_heading l"
      using group_start_is_head[OF c slide_groups_no_empty slide_groups_heads] by blast
  qed
qed

lemma boundary_iff_slide_start:
  assumes sp: "js_split LF t = pre @ l # post" and pre: "pre \<noteq> []"
  shows "is_heading l \<longleftrightarrow>
    (\<exists>k. 0 < k \<and> k < length (parseSlides t) \<and>
         concat (map (js_split LF) (take k (parseSlides t))) = pre)"
proof (cases "js_trim t = []")
  case True
  then have "\<not> is_heading l"
    using blank_no_heading[of t l] sp by simp
  moreover from True have "length (parseSlides t) = 1"
    by (simp add: parseSlides_def)
  ultimately show ?thesis by auto
next
  case False
  then show ?thesis using sp pre by (rule boundary_iff_slide_start_nonblank)
qed

lemma first_line_starts_first_slide:
  assumes "js_trim t \<noteq> []"
  shows "\<exists>rest. js_split LF (hd (parseSlides t)) = hd (js_split LF t) # rest"
proof -
  obtain g gs where gs: "slide_groups t = g # gs"
    using slide_groups_nonempty[of t] by (cases "slide_groups t") auto
  with slide_groups_no_empty[of t] obtain x rest where g: "g = x # rest"
    by (cases g) auto
  from gs g concat_slide_groups[of t] have "hd (js_split LF t) = x"
    by (metis append_Cons concat.simps(2) list.sel(1))
  moreover from gs split_parseSlides[OF assms] have "js_split LF (hd (parseSlides t)) = g"
    by (cases "parseSlides t") auto
  ultimately show ?thesis using g by simp
qed

text \<open>
  Claim C3, as the code has it: a line is a heading line exactly when it begins with
  \<open>#\<close> and a space or with \<open>##\<close> and a space, so \<open>### C\<close> is none, like every line
  that begins with \<open>###\<close>; the text of the example gives its two slides; and in every text, a line after the first line is a
  heading line if and only if a slide starts at it, that is, the lines before it are
  exactly the lines of the first \<open>k\<close> slides for some \<open>k\<close> between the first and the last
  slide. The first line of a text that is not blank always starts the first slide,
  heading line or not. A blank text has no heading line.
\<close>

theorem heading_lines_start_slides:
  "(is_heading line \<longleftrightarrow> prefix (str ''# '') line \<or> prefix (str ''## '') line) \<and>
   \<not> is_heading (str ''### C'') \<and>
   (prefix (str ''###'') line \<longrightarrow> \<not> is_heading line) \<and>
   parseSlides (str ''# A\<newline>### C'') = [str ''# A\<newline>### C''] \<and>
   parseSlides (str ''# A\<newline>body\<newline>## B\<newline>more'') =
     [str ''# A\<newline>body'', str ''## B\<newline>more''] \<and>
   (js_split LF t = pre @ l # post \<longrightarrow> pre \<noteq> [] \<longrightarrow>
      (is_heading l \<longleftrightarrow>
         (\<exists>k. 0 < k \<and> k < length (parseSlides t) \<and>
              concat (map (js_split LF) (take k (parseSlides t))) = pre))) \<and>
   (js_trim t \<noteq> [] \<longrightarrow>
      (\<exists>rest. js_split LF (hd (parseSlides t)) = hd (js_split LF t) # rest)) \<and>
   (js_trim t = [] \<longrightarrow> (\<forall>l\<in>set (js_split LF t). \<not> is_heading l))"
proof -
  have 1: "is_heading line \<longleftrightarrow> prefix (str ''# '') line \<or> prefix (str ''## '') line"
    by (rule is_heading_prefix)
  have 2: "\<not> is_heading (str ''### C'')"
    by (simp add: js_consts)
  have level3: "prefix (str ''###'') line \<longrightarrow> \<not> is_heading line"
    by (auto simp: is_heading_iff prefix_def js_consts)
  have 3: "parseSlides (str ''# A\<newline>### C'') = [str ''# A\<newline>### C'']"
    by (simp add: parseSlides_def trim_defs js_consts flush_def)
  have 4: "parseSlides (str ''# A\<newline>body\<newline>## B\<newline>more'') =
     [str ''# A\<newline>body'', str ''## B\<newline>more'']"
    by (simp add: parseSlides_def trim_defs js_consts flush_def)
  have 5: "js_split LF t = pre @ l # post \<longrightarrow> pre \<noteq> [] \<longrightarrow>
      (is_heading l \<longleftrightarrow>
         (\<exists>k. 0 < k \<and> k < length (parseSlides t) \<and>
              concat (map (js_split LF) (take k (parseSlides t))) = pre))"
    using boundary_iff_slide_start by blast
  have 6: "js_trim t \<noteq> [] \<longrightarrow>
      (\<exists>rest. js_split LF (hd (parseSlides t)) = hd (js_split LF t) # rest)"
    using first_line_starts_first_slide by blast
  have 7: "js_trim t = [] \<longrightarrow> (\<forall>l\<in>set (js_split LF t). \<not> is_heading l)"
    using blank_no_heading by blast
  from 1 2 level3 3 4 5 6 7 show ?thesis by blast
qed

theorem heading_lines_start_slides_witness:
  "js_split LF (str ''# A\<newline>b\<newline>## B'') = [str ''# A'', str ''b''] @ str ''## B'' # [] \<and>
   [str ''# A'', str ''b''] \<noteq> [] \<and>
   is_heading (str ''## B'') \<and>
   (\<exists>k. 0 < k \<and> k < length (parseSlides (str ''# A\<newline>b\<newline>## B'')) \<and>
        concat (map (js_split LF) (take k (parseSlides (str ''# A\<newline>b\<newline>## B'')))) =
          [str ''# A'', str ''b'']) \<and>
   js_trim (str ''intro\<newline># A'') \<noteq> [] \<and>
   (\<exists>rest. js_split LF (hd (parseSlides (str ''intro\<newline># A''))) =
      hd (js_split LF (str ''intro\<newline># A'')) # rest) \<and>
   js_trim (str '' '') = [] \<and> str '' '' \<in> set (js_split LF (str '' '')) \<and>
   \<not> is_heading (str '' '')"
proof -
  let ?t = "str ''# A\<newline>b\<newline>## B''"
  let ?u = "str ''intro\<newline># A''"
  have h2: "js_split LF ?t = [str ''# A'', str ''b''] @ str ''## B'' # []"
    by (simp add: js_consts)
  have h3: "[str ''# A'', str ''b''] \<noteq> []" by simp
  have h4: "is_heading (str ''## B'')" by (simp add: js_consts)
  have h5: "js_trim (str '' '') = []" by (simp add: trim_defs js_consts)
  have h7: "js_trim ?u \<noteq> []" by (simp add: trim_defs js_consts)
  note inst1 = heading_lines_start_slides[of "str ''## B''" ?t "[str ''# A'', str ''b'']" "str ''## B''" "[]"]
  note inst2 = heading_lines_start_slides[of "[]" "str '' ''" "[]" "[]" "[]"]
  note inst3 = heading_lines_start_slides[of "[]" ?u "[]" "[]" "[]"]
  from inst1 h2 h3 h4 have a:
    "\<exists>k. 0 < k \<and> k < length (parseSlides ?t) \<and>
        concat (map (js_split LF) (take k (parseSlides ?t))) = [str ''# A'', str ''b'']"
    by blast
  have h6: "str '' '' \<in> set (js_split LF (str '' ''))"
    by (simp add: js_consts)
  from inst2 h5 h6 have b: "\<not> is_heading (str '' '')"
    by blast
  from inst3 h7 have c: "\<exists>rest. js_split LF (hd (parseSlides ?u)) = hd (js_split LF ?u) # rest"
    by blast
  from a b c h2 h3 h4 h5 h6 h7 show ?thesis by blast
qed

text \<open>
  The first line of this text is a level-3 heading, no heading line, and it starts a
  slide.
\<close>

theorem first_line_starts_slide_counterexample:
  "\<not> is_heading (str ''### C'') \<and>
   parseSlides (str ''### C\<newline># A'') = [str ''### C'', str ''# A'']"
  by (simp add: parseSlides_def trim_defs js_consts flush_def)

lemma line_groups_plain:
  "\<forall>l\<in>set pre. \<not> is_heading l \<Longrightarrow>
     line_groups (pre @ ls) (gs, cur) = line_groups ls (gs, cur @ pre)"
  by (induction pre arbitrary: cur) auto

lemma close_line_groups_Cons:
  "close_group (line_groups ls (g # gs, cur)) = g # close_group (line_groups ls (gs, cur))"
  by (induction ls arbitrary: gs cur) (auto simp: close_group_def)

lemma leading_groups:
  assumes "pre \<noteq> []" and "\<forall>l\<in>set pre. \<not> is_heading l" and "is_heading h"
  shows "close_group (line_groups (pre @ h # rest) ([], [])) =
         pre # close_group (line_groups (h # rest) ([], []))"
proof -
  have "line_groups (pre @ h # rest) ([], []) = line_groups (h # rest) ([], pre)"
    using assms(2) by (simp add: line_groups_plain)
  also have "\<dots> = line_groups rest ([pre], [h])"
    using assms(1,3) by simp
  finally have "close_group (line_groups (pre @ h # rest) ([], [])) =
      pre # close_group (line_groups rest ([], [h]))"
    by (simp add: close_line_groups_Cons)
  moreover have "line_groups (h # rest) ([], []) = line_groups rest ([], [h])"
    using assms(3) by simp
  ultimately show ?thesis by simp
qed

text \<open>
  Claim C4, as the code has it: when the lines before the first heading line are not
  empty, they are emitted as a slide of their own, the first one, and the slides that
  follow are those of the text from the first heading line on.
\<close>

theorem leading_lines_form_own_slide:
  assumes "js_split LF t = pre @ h # rest" and "pre \<noteq> []"
    and "\<forall>l\<in>set pre. \<not> is_heading l" and "is_heading h"
  shows "parseSlides t = js_join [LF] pre # parseSlides (js_join [LF] (h # rest))"
proof -
  let ?t' = "js_join [LF] (h # rest)"
  have "\<forall>l\<in>set (h # rest). LF \<notin> set l"
    using js_split_no_sep[of _ LF t] assms(1) by auto
  then have sp': "js_split LF ?t' = h # rest"
    by (intro js_split_join) simp_all
  have nb: "js_trim t \<noteq> []"
    using assms(1,4) heading_line_not_blank[of h t] by simp
  have nb': "js_trim ?t' \<noteq> []"
    using sp' assms(4) heading_line_not_blank[of h ?t'] by simp
  have "slide_groups t = pre # slide_groups ?t'"
    using assms sp' by (simp add: slide_groups_def leading_groups)
  then show ?thesis
    using nb nb' by (simp add: parseSlides_groups)
qed

theorem leading_lines_form_own_slide_witness:
  "js_split LF (str ''intro\<newline># A\<newline>body'') = [str ''intro''] @ str ''# A'' # [str ''body''] \<and>
   [str ''intro''] \<noteq> [] \<and> \<not> is_heading (str ''intro'') \<and> is_heading (str ''# A'') \<and>
   parseSlides (str ''intro\<newline># A\<newline>body'') =
     js_join [LF] [str ''intro''] # parseSlides (js_join [LF] (str ''# A'' # [str ''body'']))"
proof -
  have h1: "js_split LF (str ''intro\<newline># A\<newline>body'') = [str ''intro''] @ str ''# A'' # [str ''body'']"
    by (simp add: js_consts)
  have h2: "[str ''intro''] \<noteq> []" by simp
  have h3: "\<forall>l\<in>set [str ''intro'']. \<not> is_heading l" by (simp add: js_consts)
  have h4: "is_heading (str ''# A'')" by (simp add: js_consts)
  from h3 have h3': "\<not> is_heading (str ''intro'')" by simp
  show ?thesis
    using h1 h2 h3' h4 leading_lines_form_own_slide[OF h1 h2 h3 h4] by blast
qed

text \<open>
  The leading line \<open>intro\<close> is a slide of its own; it is not part of the slide that
  starts at the heading.
\<close>

theorem leading_lines_attached_counterexample:
  "parseSlides (str ''intro\<newline># A\<newline>body'') = [str ''intro'', str ''# A\<newline>body''] \<and>
   parseSlides (str ''intro\<newline># A\<newline>body'') \<noteq> [str ''intro\<newline># A\<newline>body'']"
  by (simp add: parseSlides_def trim_defs js_consts flush_def)

lemma blank_groups:
  assumes "js_trim t = []"
  shows "slide_groups t = [js_split LF t]"
proof -
  have "\<forall>l\<in>set (js_split LF t). \<not> is_heading l"
    using assms blank_no_heading by blast
  then have "line_groups (js_split LF t @ []) ([], []) = line_groups [] ([], [] @ js_split LF t)"
    by (rule line_groups_plain)
  then show ?thesis
    by (simp add: slide_groups_def close_group_def js_split_nonempty)
qed

lemma landing_blank:
  assumes "js_trim t = []"
  shows "landing_parseSlides t = [t]"
  using assms by (simp add: landing_parseSlides_groups blank_groups js_join_split)

lemma blank_not_landing_placeholder:
  assumes "js_trim t = []"
  shows "t \<noteq> landing_placeholder"
proof
  assume "t = landing_placeholder"
  then have "HASH \<in> set t" by (simp add: landing_placeholder_def js_consts)
  with assms show False
    using HASH_not_trimmed by (auto simp: js_trim_empty_iff)
qed

text \<open>
  Claim C5, as the code has it: both functions return a non-empty list for every string
  (no operation of their bodies can throw on a string). For every text made only of white
  space and line terminators, the empty text included, \<open>parseSlides\<close> of the preview
  returns the one placeholder slide; the copy of the landing page returns one slide as
  well, which is the text itself and not its placeholder.
\<close>

theorem parseSlides_total_placeholder:
  "parseSlides t \<noteq> [] \<and> landing_parseSlides t \<noteq> [] \<and>
   ((\<forall>c\<in>set t. isWhiteSpace c \<or> isLineTerminator c) \<longrightarrow>
      parseSlides t = [placeholder_slide] \<and>
      landing_parseSlides t = [t] \<and> t \<noteq> landing_placeholder) \<and>
   parseSlides (str '''') = [placeholder_slide] \<and>
   parseSlides (str ''   '') = [placeholder_slide]"
proof -
  have "parseSlides t = [placeholder_slide] \<and> landing_parseSlides t = [t] \<and> t \<noteq> landing_placeholder"
    if "\<forall>c\<in>set t. isWhiteSpace c \<or> isLineTerminator c"
  proof -
    from that have b: "js_trim t = []"
      by (simp add: js_trim_empty_iff isTrimmed_def)
    then have "parseSlides t = [placeholder_slide]" by (simp add: parseSlides_def)
    with b show ?thesis
      using landing_blank blank_not_landing_placeholder by blast
  qed
  moreover have "parseSlides (str '''') = [placeholder_slide]"
    by (simp add: parseSlides_def trim_defs js_consts)
  moreover have "parseSlides (str ''   '') = [placeholder_slide]"
    by (simp add: parseSlides_def trim_defs js_consts)
  moreover have "landing_parseSlides t \<noteq> []"
    by (simp add: landing_parseSlides_def Let_def)
  ultimately show ?thesis
    using parseSlides_nonempty by blast
qed

theorem parseSlides_total_placeholder_witness:
  "list_all (\<lambda>c. isWhiteSpace c \<or> isLineTerminator c) (str ''  \<newline> '') \<and>
   parseSlides (str ''  \<newline> '') = [placeholder_slide] \<and>
   landing_parseSlides (str ''  \<newline> '') = [str ''  \<newline> '']"
proof -
  have h: "\<forall>c\<in>set (str ''  \<newline> ''). isWhiteSpace c \<or> isLineTerminator c"
    by (simp add: trim_defs js_consts)
  from h have "list_all (\<lambda>c. isWhiteSpace c \<or> isLineTerminator c) (str ''  \<newline> '')"
    by (simp only: list_all_iff)
  then show ?thesis
    using h parseSlides_total_placeholder[of "str ''  \<newline> ''"] by blast
qed

text \<open>
  On the empty text the copy of the landing page returns the empty slide, not its
  placeholder.
\<close>

theorem landing_placeholder_counterexample:
  "landing_parseSlides (str '''') = [str ''''] \<and>
   landing_parseSlides (str '''') \<noteq> [landing_placeholder]"
  by (simp add: landing_parseSlides_def flush_def landing_placeholder_def js_consts)

text \<open>
  Claim C10, as the code has it: the two functions agree on every text that is not blank;
  on a blank text the landing page returns the text itself as its only slide, and the
  preview returns its placeholder.
\<close>

theorem parsers_agree_on_nonblank:
  "(js_trim t \<noteq> [] \<longrightarrow> landing_parseSlides t = parseSlides t) \<and>
   (js_trim t = [] \<longrightarrow> landing_parseSlides t = [t] \<and> parseSlides t = [placeholder_slide])"
proof -
  have "landing_parseSlides t = [t]" if "js_trim t = []"
    using that by (simp add: landing_parseSlides_groups blank_groups js_join_split)
  moreover have "parseSlides t = [placeholder_slide]" if "js_trim t = []"
    using that by (simp add: parseSlides_def)
  moreover have "landing_parseSlides t = parseSlides t" if "js_trim t \<noteq> []"
    using that by (simp add: landing_parseSlides_groups parseSlides_groups)
  ultimately show ?thesis by blast
qed

theorem parsers_agree_on_nonblank_witness:
  "js_trim (str ''# A\<newline>b'') \<noteq> [] \<and>
   landing_parseSlides (str ''# A\<newline>b'') = parseSlides (str ''# A\<newline>b'') \<and>
   js_trim (str '' '') = [] \<and>
   landing_parseSlides (str '' '') = [str '' ''] \<and> parseSlides (str '' '') = [placeholder_slide]"
proof -
  have h1: "js_trim (str ''# A\<newline>b'') \<noteq> []" by (simp add: trim_defs js_consts)
  have h2: "js_trim (str '' '') = []" by (simp add: trim_defs js_consts)
  show ?thesis
    using h1 h2 parsers_agree_on_nonblank[of "str ''# A\<newline>b''"]
      parsers_agree_on_nonblank[of "str '' ''"]
    by blast
qed

text \<open>On the empty text the two functions differ.\<close>

theorem parsers_differ_counterexample:
  "landing_parseSlides [] \<noteq> parseSlides []"
  by (simp add: landing_parseSlides_def parseSlides_def flush_def trim_defs
      placeholder_slide_def js_consts)

section \<open>Properties of the cookie serialisation\<close>

lemma small_plain: "k < 0xD800 \<Longrightarrow> plain (of_nat k)"
  by (simp add: plain_def is_lead_def is_trail_def word_le_nat_alt unat_of_nat)

lemma hex_digit_plain:
  assumes "n < 16"
  shows "plain (hex_digit u n)"
proof -
  have a: "plain (of_nat (48 + n))" using assms by (intro small_plain) simp
  have b: "plain (of_nat (55 + n))" using assms by (intro small_plain) simp
  have c: "plain (of_nat (87 + n))" using assms by (intro small_plain) simp
  show ?thesis
    by (cases "n < 10"; cases u) (simp_all only: hex_digit_def if_True if_False a b c)
qed

lemma unicode_escape_plain: "c \<in> set (unicode_escape x) \<Longrightarrow> plain c"
proof -
  assume c: "c \<in> set (unicode_escape x)"
  have "unat x < 65536" using unsigned_less[of x] by simp
  then have "unat x div 4096 < 16" by simp
  then have 1: "plain (hex_digit False (unat x div 4096))" by (rule hex_digit_plain)
  have 2: "plain (hex_digit False (unat x div 256 mod 16))" by (rule hex_digit_plain) simp
  have 3: "plain (hex_digit False (unat x div 16 mod 16))" by (rule hex_digit_plain) simp
  have 4: "plain (hex_digit False (unat x mod 16))" by (rule hex_digit_plain) simp
  have 5: "plain (0x5C :: code_unit)" "plain (0x75 :: code_unit)"
    by (simp_all add: plain_def is_lead_def is_trail_def)
  from c consider "c = 0x5C" | "c = 0x75" | "c = hex_digit False (unat x div 4096)"
    | "c = hex_digit False (unat x div 256 mod 16)" | "c = hex_digit False (unat x div 16 mod 16)"
    | "c = hex_digit False (unat x mod 16)"
    by (auto simp: unicode_escape_def Let_def)
  then show ?thesis using 1 2 3 4 5 by cases simp_all
qed

lemma quote_unit_plain: "c \<in> set (quote_unit x) \<Longrightarrow> plain c"
proof -
  assume c: "c \<in> set (quote_unit x)"
  have esc: "plain (0x5C :: code_unit)" "plain (0x62 :: code_unit)" "plain (0x74 :: code_unit)"
    "plain (0x6E :: code_unit)" "plain (0x66 :: code_unit)" "plain (0x72 :: code_unit)"
    "plain (0x22 :: code_unit)"
    by (simp_all add: plain_def is_lead_def is_trail_def)
  show ?thesis
    using c esc unicode_escape_plain[of c x]
    by (auto simp: quote_unit_def plain_def split: if_splits)
qed

lemma well_formed_Cons_plain: "plain c \<Longrightarrow> well_formed (c # s) = well_formed s"
  by (cases s) (auto simp: plain_def)

lemma well_formed_append_plain:
  "\<forall>c\<in>set a. plain c \<Longrightarrow> well_formed (a @ b) = well_formed b"
  by (induction a) (simp_all add: well_formed_Cons_plain)

lemma well_formed_append: "well_formed a \<Longrightarrow> well_formed b \<Longrightarrow> well_formed (a @ b)"
proof (induction a rule: well_formed.induct)
  case 1
  then show ?case by simp
next
  case (2 c)
  then show ?case by (simp add: well_formed_Cons_plain plain_def)
next
  case (3 c d cs)
  show ?case
  proof (cases "is_lead c \<and> is_trail d")
    case True
    with 3 show ?thesis by simp
  next
    case False
    with 3 have "plain c" "well_formed (d # cs @ b)" by (auto simp: plain_def)
    then have "well_formed (c # d # cs @ b)" by (simp only: well_formed_Cons_plain)
    then show ?thesis by (simp only: append_Cons)
  qed
qed

lemma well_formed_quote_units: "well_formed (quote_units s)"
proof (induction s rule: quote_units.induct)
  case 1
  then show ?case by simp
next
  case (2 c)
  have "well_formed (quote_unit c @ [])"
    using quote_unit_plain[of _ c] by (subst well_formed_append_plain) auto
  then show ?case by simp
next
  case (3 c d cs)
  show ?case
  proof (cases "is_lead c \<and> is_trail d")
    case True
    with 3 show ?thesis by simp
  next
    case False
    with 3 have "well_formed (quote_units (d # cs))" by simp
    then have "well_formed (quote_unit c @ quote_units (d # cs))"
      using quote_unit_plain[of _ c] by (subst well_formed_append_plain) auto
    with False show ?thesis by auto
  qed
qed

lemma well_formed_QuoteJSONString: "well_formed (QuoteJSONString s)"
proof -
  have p: "plain (0x22 :: code_unit)" by (simp add: plain_def is_lead_def is_trail_def)
  have "well_formed [0x22 :: code_unit]" by (simp add: is_lead_def is_trail_def)
  then have "well_formed (quote_units s @ [0x22])"
    using well_formed_quote_units by (rule well_formed_append[rotated])
  then show ?thesis
    unfolding QuoteJSONString_def using p by (simp add: well_formed_Cons_plain)
qed

lemma well_formed_join:
  assumes "\<forall>x\<in>set xs. well_formed x" and "well_formed sep"
  shows "well_formed (js_join sep xs)"
  using assms
proof (induction xs rule: induct_list012)
  case 1
  then show ?case by simp
next
  case (2 x)
  then show ?case by simp
next
  case (3 x y zs)
  then show ?case by (simp add: well_formed_append)
qed

lemma str_plain: "c \<in> set (str s) \<Longrightarrow> plain c"
proof -
  assume "c \<in> set (str s)"
  then obtain x where c: "c = of_char x" by (auto simp: str_def)
  have "(of_char x :: nat) < 256"
    using of_char_mod_256[of x, where ?'a = nat] by (metis mod_less_divisor zero_less_numeral)
  then have "(of_char x :: nat) < 0xD800" by (rule order_less_trans) simp
  then have "plain (of_nat (of_char x :: nat))" by (rule small_plain)
  with c show ?thesis by (simp only: of_nat_of_char)
qed

lemma well_formed_plain: "\<forall>c\<in>set a. plain c \<Longrightarrow> well_formed a"
  using well_formed_append_plain[of a "[]"] by simp

lemma well_formed_str: "well_formed (str s)"
  by (rule well_formed_plain) (auto intro: str_plain)

lemma well_formed_bracket:
  assumes "plain l" and "plain r" and "well_formed body"
  shows "well_formed ([l] @ body @ [r])"
proof -
  from assms(2) have "well_formed [r]" by (simp add: plain_def)
  with assms(3) have "well_formed (body @ [r])" by (rule well_formed_append)
  with assms(1) show ?thesis by (simp add: well_formed_Cons_plain)
qed

lemma punctuation_plain:
  "plain (0x5B :: code_unit)" "plain (0x5D :: code_unit)" "plain (0x2C :: code_unit)"
  "plain (0x7B :: code_unit)" "plain (0x7D :: code_unit)" "plain (0x3A :: code_unit)"
  by (simp_all add: plain_def is_lead_def is_trail_def)

lemma well_formed_JSON_stringify: "well_formed (JSON_stringify j)"
proof (induction j)
  case JNull
  show ?case by (simp add: well_formed_str)
next
  case (JBool b)
  show ?case by (simp add: well_formed_str)
next
  case (JNum n)
  show ?case by (simp add: well_formed_str)
next
  case (JStr s)
  show ?case by (simp add: well_formed_QuoteJSONString)
next
  case (JArr xs)
  have sep: "well_formed [0x2C :: code_unit]"
    using punctuation_plain(3) by (simp add: plain_def)
  have "well_formed (js_join [0x2C] (map JSON_stringify xs))"
    using JArr sep by (intro well_formed_join) auto
  then have "well_formed ([0x5B] @ js_join [0x2C] (map JSON_stringify xs) @ [0x5D])"
    by (intro well_formed_bracket punctuation_plain)
  then show ?case by simp
next
  case (JObj ps)
  have sep: "well_formed [0x2C :: code_unit]" "well_formed [0x3A :: code_unit]"
    using punctuation_plain by (simp_all add: plain_def)
  have "well_formed (QuoteJSONString (fst p) @ [0x3A] @ JSON_stringify (snd p))" if "p \<in> set ps" for p
  proof -
    have "well_formed (JSON_stringify (snd p))"
      using JObj[of p "snd p"] that by (cases p) auto
    then show ?thesis
      using sep(2) by (intro well_formed_append well_formed_QuoteJSONString)
  qed
  then have "well_formed (js_join [0x2C]
      (map (\<lambda>p. QuoteJSONString (fst p) @ [0x3A] @ JSON_stringify (snd p)) ps))"
    using sep(1) by (intro well_formed_join) auto
  then have "well_formed ([0x7B] @ js_join [0x2C]
      (map (\<lambda>p. QuoteJSONString (fst p) @ [0x3A] @ JSON_stringify (snd p)) ps) @ [0x7D])"
    by (intro well_formed_bracket punctuation_plain)
  then show ?case by simp
qed

lemma unreserved_plain: "uri_unreserved c \<Longrightarrow> plain c"
  by (auto simp: uri_unreserved_def plain_def is_lead_def is_trail_def word_le_nat_alt)

lemma encodeURIComponent_total:
  "well_formed s \<Longrightarrow> \<exists>v. encodeURIComponent s = Some v"
proof (induction s rule: well_formed.induct)
  case 1
  then show ?case by simp
next
  case (2 c)
  then show ?case by simp
next
  case (3 c d cs)
  show ?case
  proof (cases "is_lead c \<and> is_trail d")
    case True
    with 3 obtain v where "encodeURIComponent cs = Some v" by auto
    moreover from True have "\<not> uri_unreserved c"
      using unreserved_plain[of c] by (auto simp: plain_def)
    ultimately show ?thesis using True by simp
  next
    case False
    with 3 obtain v where "encodeURIComponent (d # cs) = Some v" by auto
    moreover from False 3 have "\<not> is_lead c" "\<not> is_trail c" by auto
    ultimately show ?thesis
      by (simp del: encodeURIComponent.simps add: encodeURIComponent.simps(2)[of c])
  qed
qed

lemma set_cookie_header_total: "\<exists>h. set_cookie_header owned = Some h"
  using encodeURIComponent_total[OF well_formed_JSON_stringify[of owned]]
  by (auto simp: set_cookie_header_def)

section \<open>Properties of the gist routes\<close>

lemmas cookie_eval = set_cookie_header_def QuoteJSONString_def quote_unit_def is_lead_def
  is_trail_def uri_unreserved_def percent_octets_def utf8_def hex_digit_def














lemma delete_gist_removes:
  assumes "token" and "ownedGists cookie = Some (JArr xs)"
    and "remote (DeleteGist gid) = Response st bd" and "ok st \<or> st = 404"
  shows "\<exists>h. set_cookie_header (JArr (filter (\<lambda>i. i \<noteq> JStr gid) xs)) = Some h \<and>
     delete_gist token remote cookie gid = \<lparr>status = 200, set_cookie = Some h, payload = SuccessJson\<rparr>"
proof -
  obtain h where h: "set_cookie_header (JArr (filter (\<lambda>i. i \<noteq> JStr gid) xs)) = Some h"
    using set_cookie_header_total by blast
  with assms have "delete_gist token remote cookie gid =
      \<lparr>status = 200, set_cookie = Some h, payload = SuccessJson\<rparr>"
    by (auto simp: delete_gist_def delete_try_def)
  with h show ?thesis by blast
qed

lemma delete_gist_blocked:
  assumes "token" and "remote (DeleteGist gid) = Response st bd" and "\<not> ok st" and "st \<noteq> 404"
  shows "delete_gist token remote cookie gid = error_response st (str ''Failed to delete gist'')"
  using assms by (simp add: delete_gist_def delete_try_def)

lemma delete_gist_network:
  assumes "token" and "remote (DeleteGist gid) = NetworkError"
  shows "delete_gist token remote cookie gid = error_response 500 (str ''Failed to delete gist'')"
  using assms by (simp add: delete_gist_def delete_try_def)

lemma owned_remove_None: "(\<forall>xs. j \<noteq> JArr xs) \<Longrightarrow> owned_remove j gid = None"
  by (cases j) auto

lemma delete_gist_bad_cookie:
  assumes "token" and "remote (DeleteGist gid) = Response st bd"
    and "ownedGists cookie = None \<or> (\<exists>j. ownedGists cookie = Some j \<and> (\<forall>xs. j \<noteq> JArr xs))"
  shows "payload (delete_gist token remote cookie gid) \<noteq> SuccessJson \<and>
     set_cookie (delete_gist token remote cookie gid) = None \<and>
     (ok st \<or> st = 404 \<longrightarrow>
        delete_gist token remote cookie gid = error_response 500 (str ''Failed to delete gist''))"
  using assms owned_remove_None
  by (auto simp: delete_gist_def delete_try_def error_response_def)

text \<open>
  Claim C6, as the code has it: with the credential configured, a remote delete that
  answers with a success status or with 404 makes \<open>delete\<close> answer \<open>success\<close> and set the
  cookie to the owned array without the id, when the cookie of the request is absent or
  holds an array; a second delete of the same id, which the remote answers with 404,
  then succeeds as well, and the id is in the array after neither. A remote answer with
  any other status is returned as an error with that status, and a failed request as an
  error with status 500. A cookie that cannot be read or holds no array also gives an
  error with status 500, after the remote delete has succeeded. No error sets a cookie,
  and \<open>delete\<close> succeeds in no other case.
\<close>

theorem delete_not_found_is_success:
  "(token \<and> remote (DeleteGist gid) = Response st bd \<and> (ok st \<or> st = 404) \<and>
      ownedGists cookie = Some (JArr xs) \<longrightarrow>
        (\<exists>h. set_cookie_header (JArr (filter (\<lambda>i. i \<noteq> JStr gid) xs)) = Some h \<and>
             delete_gist token remote cookie gid =
               \<lparr>status = 200, set_cookie = Some h, payload = SuccessJson\<rparr>)) \<and>
   JStr gid \<notin> set (filter (\<lambda>i. i \<noteq> JStr gid) xs) \<and>
   (token \<and> remote' (DeleteGist gid) = Response 404 bd' \<longrightarrow>
      (\<exists>h. set_cookie_header (JArr (filter (\<lambda>i. i \<noteq> JStr gid) xs)) = Some h \<and>
           delete_gist token remote' (Owned (JArr (filter (\<lambda>i. i \<noteq> JStr gid) xs))) gid =
             \<lparr>status = 200, set_cookie = Some h, payload = SuccessJson\<rparr>)) \<and>
   (token \<and> remote (DeleteGist gid) = Response st bd \<and> \<not> ok st \<and> st \<noteq> 404 \<longrightarrow>
      delete_gist token remote cookie gid = error_response st (str ''Failed to delete gist'')) \<and>
   (token \<and> remote (DeleteGist gid) = NetworkError \<longrightarrow>
      delete_gist token remote cookie gid = error_response 500 (str ''Failed to delete gist'')) \<and>
   (token \<and> remote (DeleteGist gid) = Response st bd \<and> (ok st \<or> st = 404) \<and>
      (ownedGists cookie = None \<or> (\<exists>j. ownedGists cookie = Some j \<and> (\<forall>xs. j \<noteq> JArr xs))) \<longrightarrow>
        delete_gist token remote cookie gid = error_response 500 (str ''Failed to delete gist'')) \<and>
   (\<not> token \<longrightarrow>
      delete_gist token remote cookie gid = error_response 500 (str ''GitHub token not configured'')) \<and>
   error_response code msg = \<lparr>status = code, set_cookie = None, payload = ErrorJson msg\<rparr> \<and>
   (payload (delete_gist token remote cookie gid) = SuccessJson \<longleftrightarrow>
      token \<and> (\<exists>st bd xs. remote (DeleteGist gid) = Response st bd \<and> (ok st \<or> st = 404) \<and>
                  ownedGists cookie = Some (JArr xs)))"
proof -
  have 1: "\<exists>h. set_cookie_header (JArr (filter (\<lambda>i. i \<noteq> JStr gid) xs)) = Some h \<and>
      delete_gist token remote cookie gid = \<lparr>status = 200, set_cookie = Some h, payload = SuccessJson\<rparr>"
    if "token" "remote (DeleteGist gid) = Response st bd" "ok st \<or> st = 404"
      "ownedGists cookie = Some (JArr xs)" for st bd xs
    using delete_gist_removes[of token cookie xs remote gid st bd] that by simp
  have 2: "\<exists>h. set_cookie_header (JArr (filter (\<lambda>i. i \<noteq> JStr gid) xs)) = Some h \<and>
      delete_gist token remote' (Owned (JArr (filter (\<lambda>i. i \<noteq> JStr gid) xs))) gid =
        \<lparr>status = 200, set_cookie = Some h, payload = SuccessJson\<rparr>"
    if "token" "remote' (DeleteGist gid) = Response 404 bd'"
    using delete_gist_removes[of token "Owned (JArr (filter (\<lambda>i. i \<noteq> JStr gid) xs))"
        "filter (\<lambda>i. i \<noteq> JStr gid) xs" remote' gid 404 bd'] that
    by simp
  have 3: "delete_gist token remote cookie gid = error_response st (str ''Failed to delete gist'')"
    if "token" "remote (DeleteGist gid) = Response st bd" "\<not> ok st" "st \<noteq> 404" for st bd
    using delete_gist_blocked[of token remote gid st bd cookie] that by simp
  have 4: "delete_gist token remote cookie gid = error_response 500 (str ''Failed to delete gist'')"
    if "token" "remote (DeleteGist gid) = NetworkError"
    using delete_gist_network[of token remote gid cookie] that by simp
  have 5: "delete_gist token remote cookie gid = error_response 500 (str ''Failed to delete gist'')"
    if "token" "remote (DeleteGist gid) = Response st bd" "ok st \<or> st = 404"
      "ownedGists cookie = None \<or> (\<exists>j. ownedGists cookie = Some j \<and> (\<forall>xs. j \<noteq> JArr xs))"
    using delete_gist_bad_cookie[of token remote gid st bd cookie] that by simp
  have 6: "delete_gist token remote cookie gid = error_response 500 (str ''GitHub token not configured'')"
    if "\<not> token"
    using that by (simp add: delete_gist_def)
  have 7: "payload (delete_gist token remote cookie gid) = SuccessJson \<longleftrightarrow>
      token \<and> (\<exists>st bd xs. remote (DeleteGist gid) = Response st bd \<and> (ok st \<or> st = 404) \<and>
                  ownedGists cookie = Some (JArr xs))"
  proof (cases token)
    case False
    with 6 show ?thesis by (simp add: error_response_def)
  next
    case True
    show ?thesis
    proof (cases "remote (DeleteGist gid)")
      case NetworkError
      with 4 True show ?thesis by (simp add: error_response_def)
    next
      case (Response st' bd')
      show ?thesis
      proof (cases "ok st' \<or> st' = 404")
        case False
        with 3[OF True Response] Response True show ?thesis by (auto simp: error_response_def)
      next
        case ok: True
        show ?thesis
        proof (cases "\<exists>ys. ownedGists cookie = Some (JArr ys)")
          case True
          then obtain ys where ys: "ownedGists cookie = Some (JArr ys)" by blast
          from delete_gist_removes[of token cookie ys remote gid st' bd'] \<open>token\<close> ys Response ok
          have "payload (delete_gist token remote cookie gid) = SuccessJson" by auto
          with \<open>token\<close> Response ok ys show ?thesis by auto
        next
          case False
          then have bad: "ownedGists cookie = None \<or>
              (\<exists>j. ownedGists cookie = Some j \<and> (\<forall>xs. j \<noteq> JArr xs))"
            by (cases "ownedGists cookie") auto
          from delete_gist_bad_cookie[of token remote gid st' bd' cookie] \<open>token\<close> Response bad
          have "payload (delete_gist token remote cookie gid) \<noteq> SuccessJson" by simp
          with False show ?thesis by auto
        qed
      qed
    qed
  qed
  have 8: "JStr gid \<notin> set (filter (\<lambda>i. i \<noteq> JStr gid) xs)" by simp
  have 9: "error_response code msg = \<lparr>status = code, set_cookie = None, payload = ErrorJson msg\<rparr>"
    by (rule error_response_def)
  from 1[of st bd xs] 2 3[of st bd] 4 5 6 7 8 9 show ?thesis by blast
qed

lemma save_remote_fallback:
  assumes "body_gistId b = Some gid" and "gid \<noteq> []"
    and "remote (UpdateGist gid (gistData b)) = Response st bd" and "\<not> ok st"
    and "remote (CreateGist (gistData b)) = Response st' bd'"
  shows "save_remote remote b = Some (st', bd', None)"
  using assms by (simp add: save_remote_def)

lemma owned_add_array:
  "owned_add (JArr xs) gid = Some (JArr (if JStr gid \<in> set xs then xs else xs @ [JStr gid]))"
  by (simp add: owned_add_def)

lemma save_fallback_success:
  assumes "token" and "save_json req = Some b" and "body_gistId b = Some gid" and "gid \<noteq> []"
    and "remote (UpdateGist gid (gistData b)) = Response st bd" and "\<not> ok st"
    and "remote (CreateGist (gistData b)) = Response st' (Json result)" and "ok st'"
    and "ownedGists (save_cookie req) = Some (JArr xs)"
  shows "\<exists>h. set_cookie_header
               (JArr (if JStr (gist_id result) \<in> set xs then xs else xs @ [JStr (gist_id result)])) = Some h \<and>
             save token remote req =
               \<lparr>status = 200, set_cookie = Some h,
                payload = SavedJson (gist_html_url result) (gist_id result) False\<rparr>"
proof -
  let ?owned = "JArr (if JStr (gist_id result) \<in> set xs then xs else xs @ [JStr (gist_id result)])"
  obtain h where h: "set_cookie_header ?owned = Some h"
    using set_cookie_header_total by blast
  have r: "save_remote remote b = Some (st', Json result, None)"
    using save_remote_fallback[of b gid remote st bd st'] assms by simp
  have "save_try remote req =
      Some \<lparr>status = 200, set_cookie = Some h,
            payload = SavedJson (gist_html_url result) (gist_id result) False\<rparr>"
    using assms(2,8,9) r h by (simp add: save_try_def owned_add_array)
  with assms(1) h show ?thesis by (simp add: save_def)
qed

lemma save_fallback_failure:
  assumes "token" and "save_json req = Some b" and "body_gistId b = Some gid" and "gid \<noteq> []"
    and "remote (UpdateGist gid (gistData b)) = Response st bd" and "\<not> ok st"
    and "remote (CreateGist (gistData b)) = Response st' bd'" and "\<not> ok st'"
  shows "save token remote req = error_response st' (str ''Failed to save gist'')"
proof -
  have r: "save_remote remote b = Some (st', bd', None)"
    using save_remote_fallback[of b gid remote st bd st'] assms by simp
  with assms(1,2,8) show ?thesis by (simp add: save_def save_try_def)
qed

text \<open>
  Claim C2, as the code has it: when a save names an existing gist and the remote
  answers the update with a status that is not a success, \<open>save\<close> sends a create. When
  the create succeeds and the cookie is absent or holds a list, the answer is a success
  with \<open>updated\<close> false and the id of the new gist, and the cookie is set to the list
  with that id in it. When the create is answered with a status that is not a success
  either, \<open>save\<close> answers with the error and that status.
\<close>

theorem save_falls_back_to_create:
  assumes "token" and "save_json req = Some b" and "body_gistId b = Some gid" and "gid \<noteq> []"
    and "remote (UpdateGist gid (gistData b)) = Response st bd" and "\<not> ok st"
  shows "(remote (CreateGist (gistData b)) = Response st' (Json result) \<and> ok st' \<and>
          ownedGists (save_cookie req) = Some (JArr xs) \<longrightarrow>
            (\<exists>h. set_cookie_header
                    (JArr (if JStr (gist_id result) \<in> set xs then xs else xs @ [JStr (gist_id result)])) = Some h \<and>
                 save token remote req =
                   \<lparr>status = 200, set_cookie = Some h,
                    payload = SavedJson (gist_html_url result) (gist_id result) False\<rparr>) \<and>
            JStr (gist_id result) \<in> set (if JStr (gist_id result) \<in> set xs then xs else xs @ [JStr (gist_id result)])) \<and>
         (remote (CreateGist (gistData b)) = Response st' bd' \<and> \<not> ok st' \<longrightarrow>
            save token remote req = error_response st' (str ''Failed to save gist''))"
proof (intro conjI impI)
  assume a: "remote (CreateGist (gistData b)) = Response st' (Json result) \<and> ok st' \<and>
          ownedGists (save_cookie req) = Some (JArr xs)"
  show "\<exists>h. set_cookie_header
            (JArr (if JStr (gist_id result) \<in> set xs then xs else xs @ [JStr (gist_id result)])) = Some h \<and>
          save token remote req =
            \<lparr>status = 200, set_cookie = Some h,
             payload = SavedJson (gist_html_url result) (gist_id result) False\<rparr>"
    using save_fallback_success[of token req b gid remote st bd st' result xs] assms a by blast
  show "JStr (gist_id result) \<in> set (if JStr (gist_id result) \<in> set xs then xs else xs @ [JStr (gist_id result)])"
    by simp
next
  assume a: "remote (CreateGist (gistData b)) = Response st' bd' \<and> \<not> ok st'"
  show "save token remote req = error_response st' (str ''Failed to save gist'')"
    using save_fallback_failure[of token req b gid remote st bd st' bd'] assms a by blast
qed












lemmas sample_defs = sample_gist_def sample_body_def sample_request_def numbered_request_def
  sample_owned_def remote_forks_def remote_down_def

lemma ok_simps: "ok 200" "ok 201" "ok 204" "\<not> ok 404" "\<not> ok 503"
  by (simp_all add: ok_def)

lemma header_abc:
  "set_cookie_header (JArr [JStr (str ''abc'')]) =
     Some (str ''md2slides_owned=%5B%22abc%22%5D; Path=/; Max-Age=31536000; SameSite=Lax'')"
  by (simp add: cookie_eval js_consts)


lemma header_1_xyz:
  "set_cookie_header (JArr [JNum ''1'', JStr (str ''xyz'')]) =
     Some (str ''md2slides_owned=%5B1%2C%22xyz%22%5D; Path=/; Max-Age=31536000; SameSite=Lax'')"
  by (simp add: cookie_eval js_consts)

lemma str_neq: "str ''xyz'' \<noteq> str ''abc''" "str ''gone'' \<noteq> str ''abc''" "str ''1'' \<noteq> str ''abc''"
  "str ''xyz'' \<noteq> str ''gone''" "str ''old'' \<noteq> []" "str ''abc'' \<noteq> []"
  by (simp_all add: str_def)

lemma sample_remote:
  "remote_forks (UpdateGist (str ''old'') d) = Response 404 NotJson"
  "remote_forks (CreateGist d) = Response 201 (Json sample_gist)"
  "remote_forks (GetGist (str ''abc'')) = Response 200 (Json sample_gist)"
  "remote_forks (GetGist (str ''1'')) = Response 404 NotJson"
  "remote_forks (GetGist (str ''xyz'')) = Response 404 NotJson"
  "remote_forks (DeleteGist (str ''abc'')) = Response 204 NotJson"
  "remote_forks (DeleteGist (str ''gone'')) = Response 404 NotJson"
  "remote_down r = Response 503 NotJson"
  using str_neq by (simp_all add: remote_forks_def remote_down_def)

lemma sample_save_remote:
  "save_remote remote_forks sample_body = Some (201, Json sample_gist, None)"
  "save_remote remote_down sample_body = Some (503, NotJson, None)"
  using str_neq(5) by (simp_all add: save_remote_def sample_body_def sample_remote ok_simps)

lemma sample_gist_fields:
  "gist_id sample_gist = str ''abc''" "gist_html_url sample_gist = str ''https://gist.github.com/abc''"
  by (simp_all add: sample_gist_def)



lemma sample_filter:
  "filter (\<lambda>i. i \<noteq> JStr (str ''abc'')) [JStr (str ''abc''), JNum ''1'', JStr (str ''xyz'')] =
     [JNum ''1'', JStr (str ''xyz'')]"
  "filter (\<lambda>i. i \<noteq> JStr (str ''gone'')) [JNum ''1'', JStr (str ''xyz'')] = [JNum ''1'', JStr (str ''xyz'')]"
  using str_neq by simp_all


text \<open>
  When the remote answers both the update and the create with 503, \<open>save\<close> answers
  with the error and the status 503.
\<close>

theorem save_surfaces_failure_counterexample:
  "save True remote_down sample_request = error_response 503 (str ''Failed to save gist'')"
  by (simp add: save_def save_try_def sample_request_def sample_save_remote ok_simps)

theorem save_falls_back_to_create_witness:
  "save True remote_forks sample_request =
     \<lparr>status = 200,
      set_cookie = Some (str ''md2slides_owned=%5B%22abc%22%5D; Path=/; Max-Age=31536000; SameSite=Lax''),
      payload = SavedJson (str ''https://gist.github.com/abc'') (str ''abc'') False\<rparr> \<and>
   save True remote_down sample_request = error_response 503 (str ''Failed to save gist'')"
proof -
  have h1: "save_json sample_request = Some sample_body" by (simp add: sample_request_def)
  have h2: "body_gistId sample_body = Some (str ''old'')" by (simp add: sample_body_def)
  have h6: "ownedGists (save_cookie sample_request) = Some (JArr [])"
    by (simp add: sample_request_def)
  note forks = save_falls_back_to_create[where token = True and req = sample_request
      and b = sample_body and gid = "str ''old''" and remote = remote_forks and st = 404
      and bd = NotJson and st' = 201 and result = sample_gist and xs = "[]" and bd' = NotJson,
      OF TrueI h1 h2 str_neq(5) sample_remote(1) ok_simps(4)]
  note down = save_falls_back_to_create[where token = True and req = sample_request
      and b = sample_body and gid = "str ''old''" and remote = remote_down and st = 503
      and bd = NotJson and st' = 503 and result = sample_gist and xs = "[]" and bd' = NotJson,
      OF TrueI h1 h2 str_neq(5) sample_remote(8) ok_simps(5)]
  have p1: "remote_forks (CreateGist (gistData sample_body)) = Response 201 (Json sample_gist) \<and>
      ok 201 \<and> ownedGists (save_cookie sample_request) = Some (JArr [])"
    by (intro conjI) (rule sample_remote, rule ok_simps, rule h6)
  from forks[THEN conjunct1] p1
  have "(\<exists>h. set_cookie_header (JArr (if JStr (gist_id sample_gist) \<in> set [] then []
              else [] @ [JStr (gist_id sample_gist)])) = Some h \<and>
      save True remote_forks sample_request =
        \<lparr>status = 200, set_cookie = Some h,
         payload = SavedJson (gist_html_url sample_gist) (gist_id sample_gist) False\<rparr>) \<and>
      JStr (gist_id sample_gist) \<in> set (if JStr (gist_id sample_gist) \<in> set [] then []
              else [] @ [JStr (gist_id sample_gist)])"
    by (rule mp)
  then have 1: "save True remote_forks sample_request =
     \<lparr>status = 200,
      set_cookie = Some (str ''md2slides_owned=%5B%22abc%22%5D; Path=/; Max-Age=31536000; SameSite=Lax''),
      payload = SavedJson (str ''https://gist.github.com/abc'') (str ''abc'') False\<rparr>"
    by (auto simp: sample_gist_fields header_abc)
  have p2: "remote_down (CreateGist (gistData sample_body)) = Response 503 NotJson \<and> \<not> ok 503"
    by (intro conjI) (rule sample_remote, rule ok_simps)
  from down[THEN conjunct2] p2
  have 2: "save True remote_down sample_request = error_response 503 (str ''Failed to save gist'')"
    by (rule mp)
  show ?thesis by (rule conjI[OF 1 2])
qed

text \<open>
  The remote deletes the gist, yet a cookie that cannot be read makes \<open>delete\<close> answer
  with an error: the removal is blocked without any error of the remote.
\<close>

theorem delete_blocked_by_cookie_counterexample:
  "remote_forks (DeleteGist (str ''abc'')) = Response 204 NotJson \<and> ok 204 \<and>
   delete_gist True remote_forks Malformed (str ''abc'') =
     error_response 500 (str ''Failed to delete gist'')"
  by (simp add: sample_remote ok_simps delete_gist_def delete_try_def)

theorem delete_not_found_is_success_witness:
  "delete_gist True remote_forks (Owned sample_owned) (str ''abc'') =
     \<lparr>status = 200,
      set_cookie = Some (str ''md2slides_owned=%5B1%2C%22xyz%22%5D; Path=/; Max-Age=31536000; SameSite=Lax''),
      payload = SuccessJson\<rparr> \<and>
   delete_gist True remote_forks (Owned (JArr [JNum ''1'', JStr (str ''xyz'')])) (str ''gone'') =
     \<lparr>status = 200,
      set_cookie = Some (str ''md2slides_owned=%5B1%2C%22xyz%22%5D; Path=/; Max-Age=31536000; SameSite=Lax''),
      payload = SuccessJson\<rparr> \<and>
   delete_gist True remote_down (Owned (JArr [JNum ''1'', JStr (str ''xyz'')])) (str ''gone'') =
     error_response 503 (str ''Failed to delete gist'') \<and>
   delete_gist True remote_forks (Owned (JStr (str ''abc''))) (str ''abc'') =
     error_response 500 (str ''Failed to delete gist'') \<and>
   delete_gist False remote_forks (Owned sample_owned) (str ''abc'') =
     error_response 500 (str ''GitHub token not configured'')"
proof -
  let ?xs = "[JStr (str ''abc''), JNum ''1'', JStr (str ''xyz'')]"
  let ?ys = "[JNum ''1'', JStr (str ''xyz'')]"
  have c: "ownedGists (Owned sample_owned) = Some (JArr ?xs)" by (simp add: sample_owned_def)
  have c': "ownedGists (Owned (JArr ?ys)) = Some (JArr ?ys)" by simp
  note first = delete_not_found_is_success[where token = True and cookie = "Owned sample_owned"
      and xs = ?xs and remote = remote_forks and gid = "str ''abc''"
      and st = 204 and bd = NotJson and remote' = remote_forks and bd' = NotJson]
  note second = delete_not_found_is_success[where token = True and cookie = "Owned (JArr ?ys)"
      and xs = ?ys and remote = remote_down and gid = "str ''gone''"
      and st = 503 and bd = NotJson and remote' = remote_forks and bd' = NotJson]
  note third = delete_not_found_is_success[where token = True and cookie = "Owned (JStr (str ''abc''))"
      and xs = ?ys and remote = remote_forks and gid = "str ''abc''"
      and st = 204 and bd = NotJson and remote' = remote_forks and bd' = NotJson]
  note fourth = delete_not_found_is_success[where token = False and cookie = "Owned sample_owned"
      and xs = ?xs and remote = remote_forks and gid = "str ''abc''"
      and st = 204 and bd = NotJson and remote' = remote_forks and bd' = NotJson]
  have p1: "True \<and> remote_forks (DeleteGist (str ''abc'')) = Response 204 NotJson \<and>
      (ok 204 \<or> (204::nat) = 404) \<and> ownedGists (Owned sample_owned) = Some (JArr ?xs)"
    by (intro conjI disjI1 TrueI) (rule sample_remote, rule ok_simps, rule c)
  from first[THEN conjunct1] p1
  have "\<exists>h. set_cookie_header (JArr (filter (\<lambda>i. i \<noteq> JStr (str ''abc'')) ?xs)) = Some h \<and>
      delete_gist True remote_forks (Owned sample_owned) (str ''abc'') =
        \<lparr>status = 200, set_cookie = Some h, payload = SuccessJson\<rparr>"
    by (rule mp)
  then have 1: "delete_gist True remote_forks (Owned sample_owned) (str ''abc'') =
     \<lparr>status = 200,
      set_cookie = Some (str ''md2slides_owned=%5B1%2C%22xyz%22%5D; Path=/; Max-Age=31536000; SameSite=Lax''),
      payload = SuccessJson\<rparr>"
    unfolding sample_filter header_1_xyz by auto
  have p2: "True \<and> remote_forks (DeleteGist (str ''gone'')) = Response 404 NotJson"
    by (intro conjI TrueI) (rule sample_remote)
  from second[THEN conjunct2, THEN conjunct2, THEN conjunct1] p2
  have "\<exists>h. set_cookie_header (JArr (filter (\<lambda>i. i \<noteq> JStr (str ''gone'')) ?ys)) = Some h \<and>
      delete_gist True remote_forks (Owned (JArr (filter (\<lambda>i. i \<noteq> JStr (str ''gone'')) ?ys))) (str ''gone'') =
        \<lparr>status = 200, set_cookie = Some h, payload = SuccessJson\<rparr>"
    by (rule mp)
  then have 2: "delete_gist True remote_forks (Owned (JArr ?ys)) (str ''gone'') =
     \<lparr>status = 200,
      set_cookie = Some (str ''md2slides_owned=%5B1%2C%22xyz%22%5D; Path=/; Max-Age=31536000; SameSite=Lax''),
      payload = SuccessJson\<rparr>"
    unfolding sample_filter header_1_xyz by auto
  have p3: "True \<and> remote_down (DeleteGist (str ''gone'')) = Response 503 NotJson \<and>
      \<not> ok 503 \<and> (503::nat) \<noteq> 404"
    by (intro conjI TrueI) (rule sample_remote, rule ok_simps, simp)
  from second[THEN conjunct2, THEN conjunct2, THEN conjunct2, THEN conjunct1] p3
  have 3: "delete_gist True remote_down (Owned (JArr ?ys)) (str ''gone'') =
      error_response 503 (str ''Failed to delete gist'')"
    by (rule mp)
  have p4: "True \<and> remote_forks (DeleteGist (str ''abc'')) = Response 204 NotJson \<and>
      (ok 204 \<or> (204::nat) = 404) \<and>
      (ownedGists (Owned (JStr (str ''abc''))) = None \<or>
       (\<exists>j. ownedGists (Owned (JStr (str ''abc''))) = Some j \<and> (\<forall>xs. j \<noteq> JArr xs)))"
  proof (intro conjI TrueI)
    show "remote_forks (DeleteGist (str ''abc'')) = Response 204 NotJson" by (rule sample_remote)
    show "ok 204 \<or> (204::nat) = 404" by (rule disjI1) (rule ok_simps)
    show "ownedGists (Owned (JStr (str ''abc''))) = None \<or>
       (\<exists>j. ownedGists (Owned (JStr (str ''abc''))) = Some j \<and> (\<forall>xs. j \<noteq> JArr xs))"
      by simp
  qed
  from third[THEN conjunct2, THEN conjunct2, THEN conjunct2, THEN conjunct2, THEN conjunct2,
      THEN conjunct1] p4
  have 4: "delete_gist True remote_forks (Owned (JStr (str ''abc''))) (str ''abc'') =
      error_response 500 (str ''Failed to delete gist'')"
    by (rule mp)
  have p5: "\<not> False" by simp
  from fourth[THEN conjunct2, THEN conjunct2, THEN conjunct2, THEN conjunct2, THEN conjunct2,
      THEN conjunct2, THEN conjunct1] p5
  have 5: "delete_gist False remote_forks (Owned sample_owned) (str ''abc'') =
      error_response 500 (str ''GitHub token not configured'')"
    by (rule mp)
  show ?thesis by (rule conjI[OF 1 conjI[OF 2 conjI[OF 3 conjI[OF 4 5]]]])
qed




end
